theory Spec2Isabelle
  imports Complex_Main "HOL-Library.Word"
begin

unbundle bit_operations_syntax

section \<open>The forwarding core of a weave connection (forwarder.go)\<close>

text \<open>
  A shallow embedding of \<^verbatim>\<open>forwarder.go\<close>: the dispatcher \<^verbatim>\<open>Forward\<close>, the
  fragmenter \<^verbatim>\<open>fragment\<close>, the teardown \<^verbatim>\<open>stopForwarders\<close> and the pipeline
  \<^verbatim>\<open>forwarderLoop\<close> with its closures. The two senders at the end of the file
  stand behind the interface the pipeline calls, and reach the kernel only.

  Conventions.
  \<^item> Go's \<^verbatim>\<open>int\<close> is modelled by \<open>int\<close>: every quantity the code computes on
    (frame lengths, header sizes, path MTUs) is far from the machine's bounds.
    \<^verbatim>\<open>uint8\<close> and \<^verbatim>\<open>uint16\<close> fields are words, and the conversions
    \<^verbatim>\<open>uint16(...)\<close> of the source are \<open>word_of_int\<close>, which truncates as Go does.
  \<^item> A channel is an identity (a number) and a buffer in a store; a handle is an
    optional identity, \<open>None\<close> for Go's \<^verbatim>\<open>nil\<close>. A send appends to the buffer:
    blocking on a full buffer delays the sender and is not represented.
  \<^item> A run-time panic (a slice bound out of range, a negative length passed to
    \<^verbatim>\<open>make\<close>, a nil dereference) is the error value \<open>Panic\<close>.
  \<^item> Logging is not represented.
\<close>

subsection \<open>Data\<close>

type_synonym byte = "8 word"
type_synonym Peer = nat
type_synonym chan = nat

record ForwardedFrame =
  srcPeer :: Peer
  dstPeer :: Peer
  frame :: "byte list"

text \<open>The fields of gopacket's \<^verbatim>\<open>layers.Ethernet\<close> and \<^verbatim>\<open>layers.IPv4\<close>.\<close>

record Ethernet =
  ethSrcMAC :: "byte list"
  ethDstMAC :: "byte list"
  ethEthernetType :: "16 word"
  ethLength :: "16 word"

record IPv4 =
  ipVersion :: "8 word"
  ipIHL :: "8 word"
  ipTOS :: "8 word"
  ipLength :: "16 word"
  ipId :: "16 word"
  ipFlags :: "8 word"
  ipFragOffset :: "16 word"
  ipTTL :: "8 word"
  ipProtocol :: "8 word"
  ipChecksum :: "16 word"
  ipSrcIP :: "byte list"
  ipDstIP :: "byte list"
  ipPayload :: "byte list"

record EthernetDecoder =
  eth :: Ethernet
  ip :: IPv4
  decoded :: "nat list"

datatype error =
    FrameTooBigError int "ForwardedFrame option"
  | ENOBUFS
  | OtherError string
  | Panic string

text \<open>
  The part of \<^verbatim>\<open>LocalConnection\<close> that forwarder.go reads and writes, and the
  store of channel buffers the handles point into.
\<close>

record LocalConnection =
  forwardChan :: "chan option"
  forwardChanDF :: "chan option"
  stopForward :: "chan option"
  stopForwardDF :: "chan option"
  clientPMTU :: int
  clientPMTUVerified :: bool
  stackFrag :: bool
  localPeer :: Peer
  remotePeer :: Peer
  frames :: "chan \<Rightarrow> ForwardedFrame list"
  signals :: "chan \<Rightarrow> nat"

text \<open>gopacket's constants \<^verbatim>\<open>layers.IPv4MoreFragments\<close> and \<^verbatim>\<open>layers.EthernetTypeLLC\<close>.\<close>

definition IPv4MoreFragments :: "8 word" where
  "IPv4MoreFragments = 1"

definition EthernetTypeLLC :: "16 word" where
  "EthernetTypeLLC = 0"

text \<open>
  Modelled from the spec: the constant \<^verbatim>\<open>EthernetOverhead\<close> is declared outside
  forwarder.go; scenario S3 of the spec computes with 14, the length of an Ethernet
  header.
\<close>

definition EthernetOverhead :: int where
  "EthernetOverhead = 14"

subsection \<open>The fragmenter\<close>

text \<open>
  \<^verbatim>\<open>gopacket.SerializeLayers\<close> is a library call: the model takes it as a parameter,
  a function of the two headers and the payload that returns the bytes or an error.
  (With \<^verbatim>\<open>ComputeChecksums\<close> the library also stores the checksum it computed in
  the header it was handed, a field the fragmenter never reads.)
\<close>

type_synonym serializer = "Ethernet \<Rightarrow> IPv4 \<Rightarrow> byte list \<Rightarrow> error + byte list"

definition headerSize :: "IPv4 \<Rightarrow> int" where
  "headerSize ip0 = uint (ipIHL ip0) * 4"

definition maxSegmentSize :: "int \<Rightarrow> IPv4 \<Rightarrow> int" where
  "maxSegmentSize pmtu ip0 = (pmtu - EthernetOverhead - headerSize ip0) AND NOT 7"

definition payloadSize :: "IPv4 \<Rightarrow> int" where
  "payloadSize ip0 = uint (ipLength ip0) - headerSize ip0"

definition offsetBase :: "IPv4 \<Rightarrow> int" where
  "offsetBase ip0 = push_bit 3 (uint (ipFragOffset ip0))"

definition setEthLength :: "Ethernet \<Rightarrow> IPv4 \<Rightarrow> Ethernet" where
  "setEthLength e i =
     (if ethEthernetType e = EthernetTypeLLC then e\<lparr>ethLength := ipLength i\<rparr>
      else e\<lparr>ethLength := 0\<rparr>)"

text \<open>
  The body of the loop up to the serialization (lines 236 to 251): the segment's
  payload, the rest of the payload, and the two headers. \<open>None\<close> is the panic of
  \<^verbatim>\<open>payload[:maxSegmentSize]\<close> when the bound is negative (the bound cannot exceed
  the length there, since that branch is taken only when the payload is longer).
\<close>

definition nextSegment ::
  "int \<Rightarrow> int \<Rightarrow> int \<Rightarrow> 8 word \<Rightarrow> int \<Rightarrow> byte list \<Rightarrow> Ethernet \<Rightarrow> IPv4
     \<Rightarrow> (byte list \<times> byte list \<times> Ethernet \<times> IPv4) option" where
  "nextSegment hs mss base origFlags offset payload e i =
     (if int (length payload) \<le> mss then
        (let i1 = i\<lparr>ipLength := word_of_int (int (length payload) + hs), ipFlags := origFlags\<rparr>;
             e1 = setEthLength e i1
         in Some (payload, payload, e1,
                  i1\<lparr>ipFragOffset := word_of_int (drop_bit 3 (offset + base))\<rparr>))
      else if mss < 0 then None
      else Some (take (nat mss) payload, drop (nat mss) payload, e,
                 i\<lparr>ipFragOffset := word_of_int (drop_bit 3 (offset + base))\<rparr>))"

text \<open>
  The loop of lines 235 to 262. The first argument is fuel, one unit per test of the
  loop condition: \<open>None\<close> means the fuel ran out before the loop ended. The
  callback \<open>forward\<close> acts on a state \<open>s\<close>; the result is the returned error
  (\<open>None\<close> for \<^verbatim>\<open>nil\<close>) and the state the callbacks left.
\<close>

fun fragmentLoop ::
  "nat \<Rightarrow> serializer \<Rightarrow> (ForwardedFrame \<Rightarrow> 's \<Rightarrow> 's) \<Rightarrow> ForwardedFrame
     \<Rightarrow> int \<Rightarrow> int \<Rightarrow> int \<Rightarrow> int \<Rightarrow> 8 word
     \<Rightarrow> int \<Rightarrow> byte list \<Rightarrow> Ethernet \<Rightarrow> IPv4 \<Rightarrow> 's \<Rightarrow> (error option \<times> 's) option" where
  "fragmentLoop 0 ser forward fr hs mss psize base origFlags offset payload e i s = None"
| "fragmentLoop (Suc n) ser forward fr hs mss psize base origFlags offset payload e i s =
     (if offset < psize then
        (case nextSegment hs mss base origFlags offset payload e i of
           None \<Rightarrow> Some (Some (Panic ''slice bounds out of range''), s)
         | Some (segmentPayload, payload', e', i') \<Rightarrow>
             (case ser e' i' segmentPayload of
                Inl err \<Rightarrow> Some (Some err, s)
              | Inr buf \<Rightarrow>
                  fragmentLoop n ser forward fr hs mss psize base origFlags
                    (offset + mss) payload' e' i' (forward (fr\<lparr>frame := buf\<rparr>) s)))
      else Some (None, s))"

text \<open>
  \<^verbatim>\<open>fragment\<close> itself: the locals of lines 215 to 234, then the loop. The slice
  \<^verbatim>\<open>ip.BaseLayer.Payload[:payloadSize]\<close> panics when \<open>payloadSize\<close> is negative or
  beyond the payload the decoder left (whose capacity is taken to be its length).
\<close>

definition fragment ::
  "nat \<Rightarrow> serializer \<Rightarrow> Ethernet \<Rightarrow> IPv4 \<Rightarrow> int \<Rightarrow> ForwardedFrame
     \<Rightarrow> (ForwardedFrame \<Rightarrow> 's \<Rightarrow> 's) \<Rightarrow> 's \<Rightarrow> (error option \<times> 's) option" where
  "fragment fuel ser e0 ip0 pmtu fr forward s =
     (let hs = headerSize ip0;
          mss = maxSegmentSize pmtu ip0;
          psize = payloadSize ip0
      in if psize < 0 \<or> int (length (ipPayload ip0)) < psize
         then Some (Some (Panic ''slice bounds out of range''), s)
         else
           (let payload = take (nat psize) (ipPayload ip0);
                base = offsetBase ip0;
                origFlags = ipFlags ip0;
                i1 = ip0\<lparr>ipFlags := ipFlags ip0 OR IPv4MoreFragments,
                         ipLength := word_of_int (hs + mss)\<rparr>;
                e1 = setEthLength e0 i1
            in fragmentLoop fuel ser forward fr hs mss psize base origFlags 0 payload e1 i1 s))"

subsection \<open>The dispatcher and the teardown\<close>

definition chanSend :: "chan \<Rightarrow> ForwardedFrame \<Rightarrow> LocalConnection \<Rightarrow> LocalConnection" where
  "chanSend c f conn = conn\<lparr>frames := (frames conn)(c := frames conn c @ [f])\<rparr>"

text \<open>
  \<^verbatim>\<open>Forward\<close>. The snapshot taken under the read lock is the four reads of the
  connection; the result is the returned error and the connection afterwards, or
  \<open>None\<close> when the fragmenter's fuel ran out.
\<close>

definition Forward ::
  "nat \<Rightarrow> serializer \<Rightarrow> LocalConnection \<Rightarrow> bool \<Rightarrow> ForwardedFrame \<Rightarrow> EthernetDecoder option
     \<Rightarrow> (error option \<times> LocalConnection) option" where
  "Forward fuel ser conn df fr dec =
     (case (forwardChan conn, forwardChanDF conn) of
        (Some fc, Some fcDF) \<Rightarrow>
          (if df then
             (if int (length (frame fr)) - EthernetOverhead \<le> clientPMTU conn
              then Some (None, chanSend fcDF fr conn)
              else Some (Some (FrameTooBigError (clientPMTU conn) (Some fr)), conn))
           else
             (case dec of
                None \<Rightarrow> Some (None, chanSend fc fr conn)
              | Some d \<Rightarrow>
                  (if stackFrag conn \<or> length (decoded d) < 2
                   then Some (None, chanSend fc fr conn)
                   else if int (length (frame fr)) - EthernetOverhead \<le> clientPMTU conn
                   then Some (None, chanSend fcDF fr conn)
                   else fragment fuel ser (eth d) (ip d) (clientPMTU conn) fr
                          (chanSend fcDF) conn)))
      | _ \<Rightarrow> Some (None, conn))"

text \<open>
  \<^verbatim>\<open>stopForwarders\<close>: both forward handles are set to nil, then one signal is posted
  on each stop channel. A send on a nil channel blocks for ever: \<open>None\<close>.
\<close>

definition signalSend :: "chan option \<Rightarrow> LocalConnection \<Rightarrow> LocalConnection option" where
  "signalSend h conn =
     (case h of
        None \<Rightarrow> None
      | Some c \<Rightarrow> Some (conn\<lparr>signals := (signals conn)(c := Suc (signals conn c))\<rparr>))"

definition stopForwarders :: "LocalConnection \<Rightarrow> LocalConnection option" where
  "stopForwarders conn =
     (let conn1 = conn\<lparr>forwardChan := None, forwardChanDF := None\<rparr>
      in if stopForward conn1 \<noteq> None then
           (case signalSend (stopForward conn1) conn1 of
              None \<Rightarrow> None
            | Some conn2 \<Rightarrow> signalSend (stopForwardDF conn2) conn2)
         else Some conn1)"

subsection \<open>The pipeline\<close>

text \<open>
  \<^verbatim>\<open>forwarderLoop\<close> is written against two interfaces, \<^verbatim>\<open>Encryptor\<close> and
  \<^verbatim>\<open>UDPSender\<close>, and the constant \<^verbatim>\<open>UDPOverhead\<close>, all declared outside
  forwarder.go: the model takes them as parameters. The encryptor's methods act on a
  state of type \<open>'e\<close> (\<^verbatim>\<open>Bytes\<close> returns the datagram and the reset builder); the
  sender's answer may depend on the datagram and on how many datagrams it was handed
  before.
\<close>

record 'e Env =
  AppendFrame :: "ForwardedFrame \<Rightarrow> 'e \<Rightarrow> 'e"
  Bytes :: "'e \<Rightarrow> byte list \<times> 'e"
  TotalLen :: "'e \<Rightarrow> int"
  FrameOverhead :: "'e \<Rightarrow> int"
  PacketOverhead :: "'e \<Rightarrow> int"
  udpSend :: "nat \<Rightarrow> byte list \<Rightarrow> error option"
  UDPOverhead :: int

datatype status = Running | Returned | Panicked string | Diverged

text \<open>
  The locals of \<^verbatim>\<open>forwarderLoop\<close> and what it shares with the rest of the program:
  the connection (with the channel buffers), whether its forward channel has been
  closed, and two records kept for the statements below, the datagrams handed to the
  sender (each with the value of \<open>maxPayload\<close> at that moment) and the errors passed
  to \<^verbatim>\<open>CheckFatal\<close>. \<open>fwPmtuVerifyTick\<close> is true while the timer channel is not nil.
\<close>

record 'e Forwarder =
  fwConn :: LocalConnection
  fwForwardCh :: chan
  fwStop :: chan
  fwClosed :: bool
  fwEnc :: 'e
  fwMaxPayload :: int
  fwClientPMTU :: int
  fwPmtuVerifyTick :: bool
  fwStatus :: status
  fwSent :: "(int \<times> byte list) list"
  fwFatal :: "error list"

text \<open>
  Modelled from the spec: \<^verbatim>\<open>setClientPMTU\<close> and \<^verbatim>\<open>isClientPMTUVerfied\<close> are methods
  of the connection declared outside forwarder.go. The specification says of the
  first that it writes the new \<open>client_pmtu\<close> through the connection lock, and of the
  second that it reads the boolean \<open>client_pmtu_verified\<close>.
\<close>

definition setClientPMTU :: "int \<Rightarrow> LocalConnection \<Rightarrow> LocalConnection" where
  "setClientPMTU pmtu conn = conn\<lparr>clientPMTU := pmtu\<rparr>"

definition isClientPMTUVerfied :: "LocalConnection \<Rightarrow> bool" where
  "isClientPMTUVerfied conn = clientPMTUVerified conn"

text \<open>\<^verbatim>\<open>udpSender.Send(enc.Bytes())\<close>: the builder is reset, the datagram recorded.\<close>

definition sendBytes :: "'e Env \<Rightarrow> 'e Forwarder \<Rightarrow> error option \<times> 'e Forwarder" where
  "sendBytes env s =
     (case Bytes env (fwEnc s) of (msg, e') \<Rightarrow>
        (udpSend env (length (fwSent s)) msg,
         s\<lparr>fwEnc := e', fwSent := fwSent s @ [(fwMaxPayload s, msg)]\<rparr>))"

text \<open>The loop of lines 79 to 82, \<open>n\<close> passes of it; the sender's answer is dropped.\<close>

fun verifySends :: "'e Env \<Rightarrow> ForwardedFrame \<Rightarrow> nat \<Rightarrow> 'e Forwarder \<Rightarrow> 'e Forwarder" where
  "verifySends env vf 0 s = s"
| "verifySends env vf (Suc n) s =
     verifySends env vf n (snd (sendBytes env (s\<lparr>fwEnc := AppendFrame env vf (fwEnc s)\<rparr>)))"

text \<open>
  \<^verbatim>\<open>updateClientPMTU\<close>. \<^verbatim>\<open>make([]byte, n)\<close> panics when \<open>n\<close> is negative, after the
  connection has been written.
\<close>

definition updateClientPMTU :: "'e Env \<Rightarrow> 'e Forwarder \<Rightarrow> 'e Forwarder" where
  "updateClientPMTU env s =
     (let s1 = s\<lparr>fwConn := setClientPMTU (fwClientPMTU s) (fwConn s)\<rparr>
      in if fwClientPMTU s + EthernetOverhead < 0
         then s1\<lparr>fwStatus := Panicked ''makeslice: len out of range''\<rparr>
         else
           (let pmtuVerifyFrame =
                  \<lparr>srcPeer = localPeer (fwConn s1), dstPeer = remotePeer (fwConn s1),
                   frame = replicate (nat (fwClientPMTU s + EthernetOverhead)) 0\<rparr>
            in (verifySends env pmtuVerifyFrame 10 s1)\<lparr>fwPmtuVerifyTick := True\<rparr>))"

definition appendFrame :: "'e Env \<Rightarrow> ForwardedFrame \<Rightarrow> 'e Forwarder \<Rightarrow> bool \<times> 'e Forwarder" where
  "appendFrame env f s =
     (if TotalLen env (fwEnc s) + FrameOverhead env (fwEnc s) + int (length (frame f))
           > fwMaxPayload s
      then (False, s)
      else (True, s\<lparr>fwEnc := AppendFrame env f (fwEnc s)\<rparr>))"

text \<open>
  \<^verbatim>\<open>flush\<close>. The type assertion on the error selects \<open>FrameTooBigError\<close>, the errno
  test \<open>ENOBUFS\<close>; every other error goes to \<^verbatim>\<open>CheckFatal\<close>.
\<close>

definition flush :: "'e Env \<Rightarrow> 'e Forwarder \<Rightarrow> 'e Forwarder" where
  "flush env s =
     (case sendBytes env s of (err, s1) \<Rightarrow>
        (case err of
           None \<Rightarrow> s1
         | Some (FrameTooBigError pmtu f) \<Rightarrow>
             updateClientPMTU env
               (s1\<lparr>fwMaxPayload := pmtu - UDPOverhead env,
                    fwClientPMTU := pmtu - UDPOverhead env - PacketOverhead env (fwEnc s1)
                                    - FrameOverhead env (fwEnc s1) - EthernetOverhead\<rparr>)
         | Some ENOBUFS \<Rightarrow> s1
         | Some e \<Rightarrow> s1\<lparr>fwFatal := fwFatal s1 @ [e]\<rparr>))"

text \<open>
  The inner loop of lines 144 to 161, run on the frames the channel holds: it returns
  the frames it left there and the state. An empty channel is the \<^verbatim>\<open>default\<close> case,
  unless the channel is closed, when the receive yields \<^verbatim>\<open>ok = false\<close> and the
  function returns. After a flush that panicked nothing more runs.
\<close>

fun innerLoop ::
  "'e Env \<Rightarrow> ForwardedFrame list \<Rightarrow> 'e Forwarder \<Rightarrow> ForwardedFrame list \<times> 'e Forwarder" where
  "innerLoop env [] s =
     (if fwClosed s then ([], s\<lparr>fwStatus := Returned\<rparr>) else ([], flush env s))"
| "innerLoop env (f # q) s =
     (case appendFrame env f s of
        (True, s1) \<Rightarrow> innerLoop env q s1
      | (False, s1) \<Rightarrow>
          (let s2 = flush env s1
           in if fwStatus s2 \<noteq> Running then (q, s2)
              else (case appendFrame env f s2 of
                      (True, s3) \<Rightarrow> innerLoop env q s3
                    | (False, s3) \<Rightarrow> (q, s3))))"

datatype select = SelStop | SelTick | SelFrame

text \<open>
  One pass of the outer loop, given the case the \<^verbatim>\<open>select\<close> takes. A case that is not
  ready (no stop signal, a nil timer channel, an empty open forward channel) leaves
  the state as it is. A receive on a closed empty channel yields a nil frame, which
  \<^verbatim>\<open>appendFrame\<close> dereferences; \<^verbatim>\<open>drain\<close> on a closed channel never returns.
\<close>

definition loopIter :: "'e Env \<Rightarrow> select \<Rightarrow> 'e Forwarder \<Rightarrow> 'e Forwarder" where
  "loopIter env sel s =
     (if fwStatus s \<noteq> Running then s
      else
        (case sel of
           SelStop \<Rightarrow>
             (if signals (fwConn s) (fwStop s) = 0 then s
              else
                (let conn1 = (fwConn s)\<lparr>signals :=
                                (signals (fwConn s))(fwStop s := signals (fwConn s) (fwStop s) - 1)\<rparr>
                 in if fwClosed s then s\<lparr>fwConn := conn1, fwStatus := Diverged\<rparr>
                    else s\<lparr>fwConn := conn1\<lparr>frames := (frames conn1)(fwForwardCh s := [])\<rparr>,
                           fwStatus := Returned\<rparr>))
         | SelTick \<Rightarrow>
             (if \<not> fwPmtuVerifyTick s then s
              else
                (let s1 = s\<lparr>fwPmtuVerifyTick := False\<rparr>
                 in if \<not> isClientPMTUVerfied (fwConn s1)
                    then updateClientPMTU env (s1\<lparr>fwClientPMTU := fwClientPMTU s1 - 10\<rparr>)
                    else s1))
         | SelFrame \<Rightarrow>
             (case frames (fwConn s) (fwForwardCh s) of
                [] \<Rightarrow> (if fwClosed s
                       then s\<lparr>fwStatus := Panicked ''nil pointer dereference''\<rparr>
                       else s)
              | f # q \<Rightarrow>
                  (case appendFrame env f s of
                     (False, s1) \<Rightarrow>
                       s1\<lparr>fwConn := (fwConn s1)\<lparr>frames := (frames (fwConn s1))(fwForwardCh s := q)\<rparr>\<rparr>
                   | (True, s1) \<Rightarrow>
                       (case innerLoop env q s1 of
                          (q', s2) \<Rightarrow>
                            s2\<lparr>fwConn := (fwConn s2)\<lparr>frames :=
                                              (frames (fwConn s2))(fwForwardCh s := q')\<rparr>\<rparr>)))))"

text \<open>
  The start of \<^verbatim>\<open>forwarderLoop\<close> (lines 70 to 72), and a run of it: the passes of the
  loop interleaved with what the rest of the program does to the connection.
\<close>

definition forwarderLoopInit ::
  "'e Env \<Rightarrow> LocalConnection \<Rightarrow> chan \<Rightarrow> chan \<Rightarrow> 'e \<Rightarrow> int \<Rightarrow> 'e Forwarder" where
  "forwarderLoopInit env conn forwardCh stop enc0 pmtu =
     \<lparr>fwConn = conn, fwForwardCh = forwardCh, fwStop = stop, fwClosed = False,
      fwEnc = enc0, fwMaxPayload = pmtu - UDPOverhead env, fwClientPMTU = 0,
      fwPmtuVerifyTick = False, fwStatus = Running, fwSent = [], fwFatal = []\<rparr>"

datatype event =
    Select select
  | Enqueue ForwardedFrame
  | SetVerified bool
  | PostStop
  | Close

fun applyEvent :: "'e Env \<Rightarrow> event \<Rightarrow> 'e Forwarder \<Rightarrow> 'e Forwarder" where
  "applyEvent env (Select sel) s = loopIter env sel s"
| "applyEvent env (Enqueue f) s = s\<lparr>fwConn := chanSend (fwForwardCh s) f (fwConn s)\<rparr>"
| "applyEvent env (SetVerified b) s = s\<lparr>fwConn := (fwConn s)\<lparr>clientPMTUVerified := b\<rparr>\<rparr>"
| "applyEvent env PostStop s =
     s\<lparr>fwConn := (fwConn s)\<lparr>signals :=
           (signals (fwConn s))(fwStop s := Suc (signals (fwConn s) (fwStop s)))\<rparr>\<rparr>"
| "applyEvent env Close s = s\<lparr>fwClosed := True\<rparr>"

definition run :: "'e Env \<Rightarrow> event list \<Rightarrow> 'e Forwarder \<Rightarrow> 'e Forwarder" where
  "run env evs s = foldl (\<lambda>t ev. applyEvent env ev t) s evs"

subsection \<open>The closed forms of the specification\<close>

text \<open>
  Section 4.6 of the specification describes the fragmenter's output in closed form;
  the definitions below follow its words and are compared with \<open>fragment\<close> in the
  theorems. The payload is cut in chunks of \<open>max_segment_size\<close>; chunk number \<open>k\<close>
  starts at byte \<open>k * max_segment_size\<close>, its header carries the fragment offset
  \<open>(byte_offset + original offset in bytes) >> 3\<close>, the original flags joined with
  MoreFragments (the original flags alone on the last chunk), and the length
  \<open>header_size + chunk_size\<close>; the Ethernet length is the IP length under LLC and zero
  otherwise.
\<close>

definition segmentCount :: "int \<Rightarrow> int \<Rightarrow> nat" where
  "segmentCount psize mss = nat ((psize + mss - 1) div mss)"

definition segmentSpec ::
  "Ethernet \<Rightarrow> IPv4 \<Rightarrow> int \<Rightarrow> nat \<Rightarrow> Ethernet \<times> IPv4 \<times> byte list" where
  "segmentSpec e0 ip0 pmtu k =
     (let mss = maxSegmentSize pmtu ip0;
          chunk = take (nat mss) (drop (k * nat mss) (take (nat (payloadSize ip0)) (ipPayload ip0)));
          final = (Suc k = segmentCount (payloadSize ip0) mss);
          len = (word_of_int (headerSize ip0 + int (length chunk)) :: 16 word)
      in (e0\<lparr>ethLength := (if ethEthernetType e0 = EthernetTypeLLC then len else 0)\<rparr>,
          ip0\<lparr>ipFragOffset := word_of_int (drop_bit 3 (int k * mss + offsetBase ip0)),
               ipFlags := (if final then ipFlags ip0 else ipFlags ip0 OR IPv4MoreFragments),
               ipLength := len\<rparr>,
          chunk))"

definition segmentsSpec :: "Ethernet \<Rightarrow> IPv4 \<Rightarrow> int \<Rightarrow> (Ethernet \<times> IPv4 \<times> byte list) list" where
  "segmentsSpec e0 ip0 pmtu =
     map (segmentSpec e0 ip0 pmtu)
       [0 ..< segmentCount (payloadSize ip0) (maxSegmentSize pmtu ip0)]"

text \<open>
  What the fragmenter hands to its callback for one segment, and the effect of handing
  a list of segments over in order.
\<close>

definition segFrame :: "serializer \<Rightarrow> ForwardedFrame \<Rightarrow> Ethernet \<times> IPv4 \<times> byte list \<Rightarrow> ForwardedFrame" where
  "segFrame ser fr seg =
     (case seg of (e, i, p) \<Rightarrow>
        fr\<lparr>frame := (case ser e i p of Inr buf \<Rightarrow> buf | Inl err \<Rightarrow> [])\<rparr>)"

definition serializes :: "serializer \<Rightarrow> Ethernet \<times> IPv4 \<times> byte list \<Rightarrow> bool" where
  "serializes ser seg = (case seg of (e, i, p) \<Rightarrow> (case ser e i p of Inr buf \<Rightarrow> True | Inl err \<Rightarrow> False))"

definition forwardAll ::
  "serializer \<Rightarrow> ForwardedFrame \<Rightarrow> (ForwardedFrame \<Rightarrow> 's \<Rightarrow> 's)
     \<Rightarrow> (Ethernet \<times> IPv4 \<times> byte list) list \<Rightarrow> 's \<Rightarrow> 's" where
  "forwardAll ser fr forward segs s = foldl (\<lambda>t seg. forward (segFrame ser fr seg) t) s segs"

text \<open>
  Verification, as section 4.2 of the specification words it: the verification frame
  is appended through the encryptor and flushed on its own, \<open>n\<close> times over. The
  datagrams that produces, and the builder it leaves.
\<close>

fun verifyDatagrams :: "'e Env \<Rightarrow> ForwardedFrame \<Rightarrow> nat \<Rightarrow> 'e \<Rightarrow> byte list list" where
  "verifyDatagrams env vf 0 e = []"
| "verifyDatagrams env vf (Suc n) e =
     fst (Bytes env (AppendFrame env vf e))
       # verifyDatagrams env vf n (snd (Bytes env (AppendFrame env vf e)))"

fun verifyEnc :: "'e Env \<Rightarrow> ForwardedFrame \<Rightarrow> nat \<Rightarrow> 'e \<Rightarrow> 'e" where
  "verifyEnc env vf 0 e = e"
| "verifyEnc env vf (Suc n) e = verifyEnc env vf n (snd (Bytes env (AppendFrame env vf e)))"

definition verifyFrame :: "LocalConnection \<Rightarrow> int \<Rightarrow> ForwardedFrame" where
  "verifyFrame conn pmtu =
     \<lparr>srcPeer = localPeer conn, dstPeer = remotePeer conn,
      frame = replicate (nat (pmtu + EthernetOverhead)) 0\<rparr>"

text \<open>
  The encryptor's accounting is accurate (section 4.3 of the specification): appending
  a frame adds at most the frame and \<open>frame_overhead\<close> to \<open>total_len\<close>; the datagram
  that \<open>bytes\<close> returns is at most \<open>total_len + packet_overhead\<close> long; the builder it
  leaves holds at most the fixed header, which is part of \<open>packet_overhead\<close>; and the
  two overheads are the same before and after either operation.
\<close>

definition accurate :: "'e Env \<Rightarrow> bool" where
  "accurate env =
     ((\<forall>f e. TotalLen env (AppendFrame env f e)
               \<le> TotalLen env e + FrameOverhead env e + int (length (frame f)))
      \<and> (\<forall>e. int (length (fst (Bytes env e))) \<le> TotalLen env e + PacketOverhead env e)
      \<and> (\<forall>e. TotalLen env (snd (Bytes env e)) \<le> PacketOverhead env e)
      \<and> (\<forall>f e. FrameOverhead env (AppendFrame env f e) = FrameOverhead env e
               \<and> PacketOverhead env (AppendFrame env f e) = PacketOverhead env e)
      \<and> (\<forall>e. FrameOverhead env (snd (Bytes env e)) = FrameOverhead env e
             \<and> PacketOverhead env (snd (Bytes env e)) = PacketOverhead env e))"

text \<open>
  The bound of the specification's third testable invariant on the recorded datagrams,
  and the invariant of the loop it follows from: the overheads are \<open>po\<close> and \<open>fo\<close>,
  every datagram handed over so far respects the bound, and while the timer is armed
  the builder holds no frame and a verification frame for the current \<open>clientPMTU\<close>
  fits under \<open>maxPayload\<close>.
\<close>

definition sentBounded :: "int \<Rightarrow> 'e Forwarder \<Rightarrow> bool" where
  "sentBounded po s = (\<forall>(mp, d) \<in> set (fwSent s). int (length d) \<le> mp + po)"

definition encOverheads :: "'e Env \<Rightarrow> int \<Rightarrow> int \<Rightarrow> 'e \<Rightarrow> bool" where
  "encOverheads env po fo e = (PacketOverhead env e = po \<and> FrameOverhead env e = fo)"

definition tickFits :: "int \<Rightarrow> int \<Rightarrow> 'e Forwarder \<Rightarrow> bool" where
  "tickFits po fo s =
     (fwPmtuVerifyTick s \<longrightarrow> fwClientPMTU s + EthernetOverhead + po + fo \<le> fwMaxPayload s)"

definition fwInv :: "'e Env \<Rightarrow> int \<Rightarrow> int \<Rightarrow> 'e Forwarder \<Rightarrow> bool" where
  "fwInv env po fo s =
     (encOverheads env po fo (fwEnc s) \<and> sentBounded po s \<and> tickFits po fo s
      \<and> (fwStatus s = Running \<and> fwPmtuVerifyTick s \<longrightarrow> TotalLen env (fwEnc s) \<le> po))"

definition batchInv :: "'e Env \<Rightarrow> int \<Rightarrow> int \<Rightarrow> 'e Forwarder \<Rightarrow> bool" where
  "batchInv env po fo s =
     (encOverheads env po fo (fwEnc s) \<and> sentBounded po s \<and> tickFits po fo s
      \<and> TotalLen env (fwEnc s) \<le> fwMaxPayload s)"

text \<open>
  The bound \<open>MinPMTU \<le> client_pmtu\<close> of the specification, on the pipeline's variable
  and on the connection's field; \<^verbatim>\<open>MinPMTU\<close> is not a name of forwarder.go and is taken
  as a parameter.
\<close>

definition pmtuAtLeast :: "int \<Rightarrow> 'e Forwarder \<Rightarrow> bool" where
  "pmtuAtLeast minPMTU s = (minPMTU \<le> fwClientPMTU s \<and> minPMTU \<le> clientPMTU (fwConn s))"

subsection \<open>Example values\<close>

text \<open>Concrete values at which the theorems below are instantiated.\<close>

definition exConn :: LocalConnection where
  "exConn = \<lparr>forwardChan = Some 0, forwardChanDF = Some 1,
              stopForward = Some 2, stopForwardDF = Some 3,
              clientPMTU = 1000, clientPMTUVerified = False, stackFrag = False,
              localPeer = 1, remotePeer = 2,
              frames = (\<lambda>c. []), signals = (\<lambda>c. 0)\<rparr>"

definition exFrame :: "nat \<Rightarrow> ForwardedFrame" where
  "exFrame n = \<lparr>srcPeer = 1, dstPeer = 2, frame = replicate n 0\<rparr>"

definition exSer :: serializer where
  "exSer e i p = Inr p"

definition exEth :: Ethernet where
  "exEth = \<lparr>ethSrcMAC = [2, 0, 0, 0, 0, 1], ethDstMAC = [2, 0, 0, 0, 0, 2],
             ethEthernetType = 0x0800, ethLength = 0\<rparr>"

text \<open>An IPv4 header without options, of the given total length, offset and payload.\<close>

definition exIP :: "16 word \<Rightarrow> 16 word \<Rightarrow> byte list \<Rightarrow> IPv4" where
  "exIP len off payload =
     \<lparr>ipVersion = 4, ipIHL = 5, ipTOS = 0, ipLength = len, ipId = 7, ipFlags = 0,
      ipFragOffset = off, ipTTL = 64, ipProtocol = 17, ipChecksum = 0,
      ipSrcIP = [10, 0, 0, 1], ipDstIP = [10, 0, 0, 2], ipPayload = payload\<rparr>"

definition exDec :: "IPv4 \<Rightarrow> EthernetDecoder" where
  "exDec i = \<lparr>eth = exEth, ip = i, decoded = [0, 1]\<rparr>"

text \<open>
  A serializer that makes the header fields of a segment visible in its bytes: the
  fragment offset (its low byte), the flags, then the payload.
\<close>

definition probeSer :: serializer where
  "probeSer e i p = Inr (ucast (ipFragOffset i) # ipFlags i # p)"

text \<open>
  An encryptor for the examples: the builder is the plaintext so far, a frame is framed
  by \<open>fo\<close> bytes and a datagram headed by \<open>po\<close> bytes. A sender that answers the
  first datagram with \<open>FrameTooBigError{pmtu}\<close> and accepts the later ones.
\<close>

definition tooBigOnce :: "int \<Rightarrow> nat \<Rightarrow> byte list \<Rightarrow> error option" where
  "tooBigOnce pmtu n msg = (if n = 0 then Some (FrameTooBigError pmtu None) else None)"

definition exEnv :: "nat \<Rightarrow> nat \<Rightarrow> (nat \<Rightarrow> byte list \<Rightarrow> error option) \<Rightarrow> (byte list) Env" where
  "exEnv po fo sender =
     \<lparr>AppendFrame = (\<lambda>f b. b @ replicate fo 0 @ frame f),
      Bytes = (\<lambda>b. (replicate po 0 @ b, [])),
      TotalLen = (\<lambda>b. int (length b)),
      FrameOverhead = (\<lambda>b. int fo),
      PacketOverhead = (\<lambda>b. int po),
      udpSend = sender,
      UDPOverhead = 28\<rparr>"

definition exFw :: "nat \<Rightarrow> nat \<Rightarrow> (nat \<Rightarrow> byte list \<Rightarrow> error option) \<Rightarrow> int \<Rightarrow> (byte list) Forwarder" where
  "exFw po fo sender pmtu = forwarderLoopInit (exEnv po fo sender) exConn 1 3 [] pmtu"

text \<open>
  A run of the pipeline: a frame arrives, its flush is answered with
  \<open>FrameTooBigError{68}\<close>, and the verify timer fires three times without the remote
  acknowledging. \<open>exTicking\<close> is the state before the timer fires, with
  \<open>client_pmtu = c\<close> not verified (scenario S5 of the specification has \<open>c = 1200\<close>).
\<close>

definition exCountdown :: "nat \<Rightarrow> (byte list) Forwarder" where
  "exCountdown n =
     run (exEnv 0 2 (tooBigOnce 68))
       ([Enqueue (exFrame 100), Select SelFrame] @ replicate n (Select SelTick))
       (exFw 0 2 (tooBigOnce 68) 1500)"

definition exTicking :: "int \<Rightarrow> bool \<Rightarrow> (byte list) Forwarder" where
  "exTicking c verified =
     (exFw 0 2 (\<lambda>n msg. None) 1500)
       \<lparr>fwConn := exConn\<lparr>clientPMTU := c, clientPMTUVerified := verified\<rparr>,
        fwClientPMTU := c, fwPmtuVerifyTick := True\<rparr>"

text \<open>The pipeline with one frame of 100 bytes in the builder, about to flush.\<close>

definition exBatch :: "nat \<Rightarrow> nat \<Rightarrow> int \<Rightarrow> (byte list) Forwarder" where
  "exBatch po fo pmtu =
     snd (appendFrame (exEnv po fo (tooBigOnce pmtu)) (exFrame 100)
            (exFw po fo (tooBigOnce pmtu) 1500))"

text \<open>
  Scenario S3 of the specification, as it words it and read through \<open>probeSer\<close>:
  three segments on the DF queue with offsets 0, 122 and 244, the first two with 968
  bytes of IP payload and MoreFragments set, the third with the original flags (none
  in the example); and the DF queue the code leaves in that scenario.
\<close>

definition S3_claimed :: "ForwardedFrame list \<Rightarrow> bool" where
  "S3_claimed q =
     (length q = 3
      \<and> map (\<lambda>f. hd (frame f)) q = [0, 122, 244]
      \<and> length (frame (q ! 0)) = 2 + 968 \<and> length (frame (q ! 1)) = 2 + 968
      \<and> frame (q ! 0) ! 1 = 1 \<and> frame (q ! 1) ! 1 = 1 \<and> frame (q ! 2) ! 1 = 0)"

definition exS3 :: LocalConnection where
  "exS3 = exConn\<lparr>frames := (frames exConn)(1 :=
            [\<lparr>srcPeer = 1, dstPeer = 2, frame = 0 # 1 # replicate 960 0\<rparr>,
             \<lparr>srcPeer = 1, dstPeer = 2, frame = 120 # 1 # replicate 960 0\<rparr>,
             \<lparr>srcPeer = 1, dstPeer = 2, frame = 240 # 0 # replicate 546 0\<rparr>])\<rparr>"

section \<open>Properties\<close>

subsection \<open>The fragmenter's loop against its closed form\<close>

text \<open>Arithmetic of the chunk count.\<close>

lemma and_not_7: "(x::int) AND NOT 7 = 8 * (x div 8)"
proof -
  have "x AND NOT (mask 3) = push_bit 3 (drop_bit 3 x)"
    by (rule bit_eqI) (auto simp: bit_simps)
  then show ?thesis by (simp add: mask_eq_exp_minus_1 push_bit_eq_mult drop_bit_eq_div)
qed

lemma ceil_div:
  fixes p m :: int assumes "0 < m"
  shows "(p + m - 1) div m = - (- p div m)"
proof -
  define q r where "q = p div m" and "r = p mod m"
  have p: "p = q * m + r" and r: "0 \<le> r" "r < m"
    using assms by (simp_all add: q_def r_def)
  have lhs: "(p + m - 1) div m = (if r = 0 then q else q + 1)"
  proof (cases "r = 0")
    case True
    have "(q * m + (m - 1)) div m = q"
      using assms by (simp add: div_pos_pos_trivial)
    then show ?thesis using True p by (simp add: algebra_simps)
  next
    case False
    have "((q + 1) * m + (r - 1)) div m = q + 1"
      using assms r False by (simp add: div_pos_pos_trivial)
    moreover have "p + m - 1 = (q + 1) * m + (r - 1)"
      using p by (simp add: algebra_simps)
    ultimately have "(p + m - 1) div m = q + 1" by metis
    then show ?thesis using False by simp
  qed
  have rhs: "- (- p div m) = (if r = 0 then q else q + 1)"
    using assms by (simp add: zdiv_zminus1_eq_if q_def r_def)
  show ?thesis using lhs rhs by simp
qed

lemma segmentCount_ceiling:
  assumes "0 < mss"
  shows "segmentCount psize mss = nat \<lceil>real_of_int psize / real_of_int mss\<rceil>"
  using assms by (simp add: segmentCount_def ceil_div ceiling_divide_eq_div)

lemma segmentCount_nat:
  assumes "0 < mss" "0 \<le> psize"
  shows "segmentCount psize mss = (nat psize + nat mss - 1) div nat mss"
proof -
  have "int ((nat psize + nat mss - 1) div nat mss) = (psize + mss - 1) div mss"
    using assms by (simp add: zdiv_int of_nat_diff)
  then show ?thesis unfolding segmentCount_def by linarith
qed

lemma ceil_less_iff:
  fixes k m p :: nat
  assumes "0 < m"
  shows "k < (p + m - 1) div m \<longleftrightarrow> k * m < p"
proof -
  have "k < (p + m - 1) div m \<longleftrightarrow> Suc k \<le> (p + m - 1) div m" by auto
  also have "\<dots> \<longleftrightarrow> Suc k * m \<le> p + m - 1"
    using assms by (simp add: less_eq_div_iff_mult_less_eq)
  also have "\<dots> \<longleftrightarrow> k * m < p" using assms by (cases m) auto
  finally show ?thesis .
qed

lemma segmentCount_less_iff:
  assumes "0 < mss" "0 \<le> psize"
  shows "k < segmentCount psize mss \<longleftrightarrow> int k * mss < psize"
proof -
  have "k < segmentCount psize mss \<longleftrightarrow> k < (nat psize + nat mss - 1) div nat mss"
    by (simp only: segmentCount_nat [OF assms])
  also have "\<dots> \<longleftrightarrow> k * nat mss < nat psize"
    by (rule ceil_less_iff) (use assms in simp)
  also have "\<dots> \<longleftrightarrow> int (k * nat mss) < int (nat psize)"
    by (simp only: of_nat_less_iff)
  also have "\<dots> \<longleftrightarrow> int k * mss < psize" using assms by simp
  finally show ?thesis .
qed

lemma nextSegment_more:
  assumes "mss < int (length payload)" and "0 \<le> mss"
  shows "nextSegment hs mss base origFlags offset payload e i
         = Some (take (nat mss) payload, drop (nat mss) payload, e,
                 i\<lparr>ipFragOffset := word_of_int (drop_bit 3 (offset + base))\<rparr>)"
  using assms by (simp add: nextSegment_def)

lemma nextSegment_last:
  assumes "int (length payload) \<le> mss"
  shows "nextSegment hs mss base origFlags offset payload e i
         = Some (payload, payload,
                 setEthLength e (i\<lparr>ipLength := word_of_int (int (length payload) + hs),
                                     ipFlags := origFlags\<rparr>),
                 i\<lparr>ipLength := word_of_int (int (length payload) + hs), ipFlags := origFlags,
                    ipFragOffset := word_of_int (drop_bit 3 (offset + base))\<rparr>)"
  using assms by (simp add: nextSegment_def Let_def)

lemma setEthLength_twice:
  "setEthLength (setEthLength e i) j = setEthLength e j"
  by (simp add: setEthLength_def)

lemma length_drop_chunk:
  assumes "0 < mss" "0 \<le> psize" "length P = nat psize"
  shows "int (length (drop (k * nat mss) P)) = max 0 (psize - int k * mss)"
proof -
  have "int (nat psize - k * nat mss) = max 0 (int (nat psize) - int (k * nat mss))"
    by linarith
  also have "int (nat psize) = psize" using assms by simp
  also have "int (k * nat mss) = int k * mss" using assms by simp
  finally show ?thesis using assms by simp
qed

lemma segmentSpec_more:
  assumes mss: "0 < maxSegmentSize pmtu ip0"
    and ps: "0 \<le> payloadSize ip0" "payloadSize ip0 \<le> int (length (ipPayload ip0))"
    and k: "Suc k < segmentCount (payloadSize ip0) (maxSegmentSize pmtu ip0)"
  shows "segmentSpec e0 ip0 pmtu k
         = (setEthLength e0
              (ip0\<lparr>ipFlags := ipFlags ip0 OR IPv4MoreFragments,
                    ipLength := word_of_int (headerSize ip0 + maxSegmentSize pmtu ip0)\<rparr>),
            ip0\<lparr>ipFlags := ipFlags ip0 OR IPv4MoreFragments,
                ipLength := word_of_int (headerSize ip0 + maxSegmentSize pmtu ip0),
                ipFragOffset := word_of_int (drop_bit 3
                   (int k * maxSegmentSize pmtu ip0 + offsetBase ip0))\<rparr>,
            take (nat (maxSegmentSize pmtu ip0))
              (drop (k * nat (maxSegmentSize pmtu ip0))
                 (take (nat (payloadSize ip0)) (ipPayload ip0))))"
proof -
  let ?mss = "maxSegmentSize pmtu ip0" and ?psize = "payloadSize ip0"
  let ?P = "take (nat ?psize) (ipPayload ip0)"
  have lenP: "length ?P = nat ?psize" using ps by simp
  have "int (Suc k) * ?mss < ?psize" using k mss ps by (simp add: segmentCount_less_iff)
  then have big: "int k * ?mss + ?mss < ?psize" by (simp add: algebra_simps)
  have "int (length (drop (k * nat ?mss) ?P)) = max 0 (?psize - int k * ?mss)"
    by (rule length_drop_chunk [OF mss ps(1) lenP])
  with big have "?mss < int (length (drop (k * nat ?mss) ?P))" by simp
  with mss have lch: "length (take (nat ?mss) (drop (k * nat ?mss) ?P)) = nat ?mss"
    by (simp del: length_drop drop_take)
  have nf: "Suc k \<noteq> segmentCount ?psize ?mss" using k by simp
  show ?thesis
    unfolding segmentSpec_def Let_def
    using nf mss by (simp add: lch setEthLength_def del: length_take length_drop drop_take)
qed


lemma segmentSpec_last:
  assumes mss: "0 < maxSegmentSize pmtu ip0"
    and ps: "0 \<le> payloadSize ip0" "payloadSize ip0 \<le> int (length (ipPayload ip0))"
    and k: "Suc k = segmentCount (payloadSize ip0) (maxSegmentSize pmtu ip0)"
  defines "rest \<equiv> drop (k * nat (maxSegmentSize pmtu ip0))
                     (take (nat (payloadSize ip0)) (ipPayload ip0))"
  shows "segmentSpec e0 ip0 pmtu k
         = (setEthLength e0
              (ip0\<lparr>ipLength := word_of_int (int (length rest) + headerSize ip0)\<rparr>),
            ip0\<lparr>ipLength := word_of_int (int (length rest) + headerSize ip0),
                ipFragOffset := word_of_int (drop_bit 3
                   (int k * maxSegmentSize pmtu ip0 + offsetBase ip0))\<rparr>,
            rest)"
    and "int (length rest) \<le> maxSegmentSize pmtu ip0"
    and "payloadSize ip0 \<le> int k * maxSegmentSize pmtu ip0 + maxSegmentSize pmtu ip0"
proof -
  let ?mss = "maxSegmentSize pmtu ip0" and ?psize = "payloadSize ip0"
  let ?P = "take (nat ?psize) (ipPayload ip0)"
  have lenP: "length ?P = nat ?psize" using ps by simp
  have "\<not> Suc k < segmentCount ?psize ?mss" using k by simp
  then have "\<not> int (Suc k) * ?mss < ?psize" using mss ps by (simp add: segmentCount_less_iff)
  then show small: "?psize \<le> int k * ?mss + ?mss" by (simp add: algebra_simps)
  have "int (length rest) = max 0 (?psize - int k * ?mss)"
    unfolding rest_def by (rule length_drop_chunk [OF mss ps(1) lenP])
  with small mss show le: "int (length rest) \<le> ?mss" by simp
  then have tk: "take (nat ?mss) rest = rest" by simp
  show "segmentSpec e0 ip0 pmtu k
         = (setEthLength e0
              (ip0\<lparr>ipLength := word_of_int (int (length rest) + headerSize ip0)\<rparr>),
            ip0\<lparr>ipLength := word_of_int (int (length rest) + headerSize ip0),
                ipFragOffset := word_of_int (drop_bit 3
                   (int k * maxSegmentSize pmtu ip0 + offsetBase ip0))\<rparr>,
            rest)"
    unfolding segmentSpec_def Let_def rest_def [symmetric] tk
    using k by (simp add: setEthLength_def add.commute)
qed

lemma forwardAll_Nil: "forwardAll ser fr forward [] s = s"
  by (simp add: forwardAll_def)

lemma forwardAll_Cons:
  "forwardAll ser fr forward (seg # segs) s
   = forwardAll ser fr forward segs (forward (segFrame ser fr seg) s)"
  by (simp add: forwardAll_def)

lemma serializes_Inr:
  assumes "serializes ser (e, i, p)"
  obtains buf where "ser e i p = Inr buf" and "segFrame ser fr (e, i, p) = fr\<lparr>frame := buf\<rparr>"
  using assms by (auto simp: serializes_def segFrame_def split: sum.splits)

lemma fragmentLoop_segments:
  fixes e0 ip0 pmtu
  defines "mss \<equiv> maxSegmentSize pmtu ip0"
    and "psize \<equiv> payloadSize ip0"
    and "i1 \<equiv> ip0\<lparr>ipFlags := ipFlags ip0 OR IPv4MoreFragments,
                     ipLength := word_of_int (headerSize ip0 + maxSegmentSize pmtu ip0)\<rparr>"
  defines "P \<equiv> take (nat psize) (ipPayload ip0)"
    and "n \<equiv> segmentCount psize mss"
  assumes mss: "0 < mss"
    and ps: "0 \<le> psize" "psize \<le> int (length (ipPayload ip0))"
  shows "k \<le> n \<Longrightarrow> n - k < fuel
     \<Longrightarrow> (\<forall>j. k \<le> j \<and> j < n \<longrightarrow> serializes ser (segmentSpec e0 ip0 pmtu j))
     \<Longrightarrow> fragmentLoop fuel ser forward fr (headerSize ip0) mss psize (offsetBase ip0)
           (ipFlags ip0) (int k * mss) (drop (k * nat mss) P)
           (setEthLength e0 i1) (i1\<lparr>ipFragOffset := x\<rparr>) s
         = Some (None, forwardAll ser fr forward (map (segmentSpec e0 ip0 pmtu) [k ..< n]) s)"
proof (induction fuel arbitrary: k x s)
  case 0
  then show ?case by simp
next
  case (Suc fuel)
  show ?case
  proof (cases "k < n")
    case False
    with Suc.prems have "k = n" by simp
    from False have "\<not> int k * mss < psize"
      using segmentCount_less_iff [OF mss ps(1), of k] unfolding n_def by blast
    then show ?thesis using \<open>k = n\<close> by (simp add: forwardAll_Nil)
  next
    case True
    then have lt: "int k * mss < psize"
      using mss ps by (simp add: n_def segmentCount_less_iff)
    have upt: "[k ..< n] = k # [Suc k ..< n]" using True by (simp add: upt_conv_Cons)
    have ok: "serializes ser (segmentSpec e0 ip0 pmtu k)" using Suc.prems True by simp
    show ?thesis
    proof (cases "Suc k < n")
      case more: True
      have spec: "segmentSpec e0 ip0 pmtu k
          = (setEthLength e0 i1,
             i1\<lparr>ipFragOffset := word_of_int (drop_bit 3 (int k * mss + offsetBase ip0))\<rparr>,
             take (nat mss) (drop (k * nat mss) P))"
        using segmentSpec_more [of pmtu ip0 k e0] mss ps more
        by (simp add: mss_def psize_def i1_def P_def n_def)
      have "int (length (drop (k * nat mss) P)) = max 0 (psize - int k * mss)"
        by (rule length_drop_chunk [OF mss ps(1)]) (use ps in \<open>simp add: P_def\<close>)
      moreover have "int (Suc k) * mss < psize"
        using more mss ps by (simp add: n_def segmentCount_less_iff)
      ultimately have "mss < int (length (drop (k * nat mss) P))"
        by (simp add: algebra_simps)
      then have ns: "nextSegment (headerSize ip0) mss (offsetBase ip0) (ipFlags ip0) (int k * mss)
             (drop (k * nat mss) P) (setEthLength e0 i1) (i1\<lparr>ipFragOffset := x\<rparr>)
           = Some (take (nat mss) (drop (k * nat mss) P), drop (nat mss) (drop (k * nat mss) P),
                   setEthLength e0 i1,
                   i1\<lparr>ipFragOffset := word_of_int (drop_bit 3 (int k * mss + offsetBase ip0))\<rparr>)"
        using mss by (simp add: nextSegment_more del: length_drop drop_drop)
      from ok spec obtain buf where
        buf: "ser (setEthLength e0 i1)
                (i1\<lparr>ipFragOffset := word_of_int (drop_bit 3 (int k * mss + offsetBase ip0))\<rparr>)
                (take (nat mss) (drop (k * nat mss) P)) = Inr buf"
        and sf: "segFrame ser fr (segmentSpec e0 ip0 pmtu k) = fr\<lparr>frame := buf\<rparr>"
        by (metis serializes_Inr)
      have dd: "drop (nat mss) (drop (k * nat mss) P) = drop (Suc k * nat mss) P"
        by (simp add: add.commute)
      have off: "int k * mss + mss = int (Suc k) * mss" by (simp add: algebra_simps)
      have IH: "fragmentLoop fuel ser forward fr (headerSize ip0) mss psize (offsetBase ip0)
           (ipFlags ip0) (int (Suc k) * mss) (drop (Suc k * nat mss) P)
           (setEthLength e0 i1)
           (i1\<lparr>ipFragOffset := word_of_int (drop_bit 3 (int k * mss + offsetBase ip0))\<rparr>)
           (forward (fr\<lparr>frame := buf\<rparr>) s)
         = Some (None, forwardAll ser fr forward (map (segmentSpec e0 ip0 pmtu) [Suc k ..< n])
                   (forward (fr\<lparr>frame := buf\<rparr>) s))"
        using Suc.IH [of "Suc k" "word_of_int (drop_bit 3 (int k * mss + offsetBase ip0))"
                         "forward (fr\<lparr>frame := buf\<rparr>) s"] Suc.prems more
        by simp
      show ?thesis
        unfolding upt list.map forwardAll_Cons sf
        using lt ns buf IH
        by (simp only: fragmentLoop.simps if_True option.case prod.case sum.case dd off)
    next
      case last: False
      with True have k: "Suc k = n" by simp
      define rest where "rest = drop (k * nat mss) P"
      have spec: "segmentSpec e0 ip0 pmtu k
         = (setEthLength e0
              (ip0\<lparr>ipLength := word_of_int (int (length rest) + headerSize ip0)\<rparr>),
            ip0\<lparr>ipLength := word_of_int (int (length rest) + headerSize ip0),
                ipFragOffset := word_of_int (drop_bit 3 (int k * mss + offsetBase ip0))\<rparr>,
            rest)"
        and le: "int (length rest) \<le> mss"
        and fin: "psize \<le> int k * mss + mss"
        using segmentSpec_last(1) [where pmtu = pmtu and ?ip0.0 = ip0 and k = k and ?e0.0 = e0]
          segmentSpec_last(2,3) [where pmtu = pmtu and ?ip0.0 = ip0 and k = k] mss ps k
        by (simp_all add: mss_def psize_def P_def n_def rest_def)
      have ns: "nextSegment (headerSize ip0) mss (offsetBase ip0) (ipFlags ip0) (int k * mss)
             rest (setEthLength e0 i1) (i1\<lparr>ipFragOffset := x\<rparr>)
           = Some (rest, rest,
               setEthLength e0
                 (ip0\<lparr>ipLength := word_of_int (int (length rest) + headerSize ip0)\<rparr>),
               ip0\<lparr>ipLength := word_of_int (int (length rest) + headerSize ip0),
                   ipFragOffset := word_of_int (drop_bit 3 (int k * mss + offsetBase ip0))\<rparr>)"
        using le by (simp add: nextSegment_last setEthLength_twice i1_def) (simp add: setEthLength_def)
      from ok spec obtain buf where
        buf: "ser (setEthLength e0
                 (ip0\<lparr>ipLength := word_of_int (int (length rest) + headerSize ip0)\<rparr>))
                (ip0\<lparr>ipLength := word_of_int (int (length rest) + headerSize ip0),
                   ipFragOffset := word_of_int (drop_bit 3 (int k * mss + offsetBase ip0))\<rparr>)
                rest = Inr buf"
        and sf: "segFrame ser fr (segmentSpec e0 ip0 pmtu k) = fr\<lparr>frame := buf\<rparr>"
        by (metis serializes_Inr)
      from Suc.prems k obtain fuel' where fuel: "fuel = Suc fuel'"
        by (cases fuel) auto
      have ex: "\<not> int k * mss + mss < psize" using fin by simp
      have upt1: "[Suc k ..< n] = []" using k by simp
      show ?thesis
        unfolding upt list.map forwardAll_Cons sf upt1 forwardAll_Nil rest_def [symmetric] fuel
        using lt ns buf ex
        by (simp only: fragmentLoop.simps if_True if_False option.case prod.case sum.case)
    qed
  qed
qed

lemma fragmentLoop_returns:
  assumes "0 < mss"
  shows "psize - offset \<le> int m * mss \<Longrightarrow>
     \<exists>r. fragmentLoop (Suc m) ser forward fr hs mss psize base origFlags offset payload e i s = Some r"
proof (induction m arbitrary: offset payload e i s)
  case 0
  then show ?case by simp
next
  case (Suc m)
  have "psize - (offset + mss) \<le> int m * mss"
    using Suc.prems by (simp add: algebra_simps)
  from Suc.IH [OF this] show ?case
    by (simp split: option.splits sum.splits prod.splits)
qed

lemma segmentCount_covers:
  assumes "0 < mss"
  shows "psize \<le> int (segmentCount psize mss) * mss"
proof (cases "0 \<le> psize")
  case True
  have "\<not> segmentCount psize mss < segmentCount psize mss" by simp
  then show ?thesis
    using segmentCount_less_iff [OF assms True, of "segmentCount psize mss"] by simp
next
  case False
  have "0 \<le> int (segmentCount psize mss) * mss" using assms by simp
  with False show ?thesis by linarith
qed

lemma fragment_returns:
  assumes "0 < maxSegmentSize pmtu ip0"
    and "segmentCount (payloadSize ip0) (maxSegmentSize pmtu ip0) < fuel"
  shows "\<exists>r. fragment fuel ser e0 ip0 pmtu fr forward s = Some r"
proof -
  let ?mss = "maxSegmentSize pmtu ip0" and ?psize = "payloadSize ip0"
  from assms(2) obtain m where fuel: "fuel = Suc m" and m: "segmentCount ?psize ?mss \<le> m"
    by (cases fuel) auto
  have "?psize \<le> int (segmentCount ?psize ?mss) * ?mss"
    by (rule segmentCount_covers [OF assms(1)])
  also have "\<dots> \<le> int m * ?mss" using m assms(1) by (simp add: mult_right_mono)
  finally have le: "?psize - 0 \<le> int m * ?mss" by simp
  show ?thesis
    unfolding fragment_def Let_def fuel
    using fragmentLoop_returns [OF assms(1) le] by (auto simp del: fragmentLoop.simps)
qed

lemma fragment_refines:
  assumes mss: "0 < maxSegmentSize pmtu ip0"
    and ps: "0 \<le> payloadSize ip0" "payloadSize ip0 \<le> int (length (ipPayload ip0))"
    and ser: "\<forall>seg \<in> set (segmentsSpec e0 ip0 pmtu). serializes ser seg"
    and fuel: "segmentCount (payloadSize ip0) (maxSegmentSize pmtu ip0) < fuel"
  shows "fragment fuel ser e0 ip0 pmtu fr forward s
         = Some (None, forwardAll ser fr forward (segmentsSpec e0 ip0 pmtu) s)"
proof -
  let ?mss = "maxSegmentSize pmtu ip0" and ?psize = "payloadSize ip0"
  let ?n = "segmentCount ?psize ?mss"
  let ?i1 = "ip0\<lparr>ipFlags := ipFlags ip0 OR IPv4MoreFragments,
                  ipLength := word_of_int (headerSize ip0 + ?mss)\<rparr>"
  have all: "\<forall>j. 0 \<le> j \<and> j < ?n \<longrightarrow> serializes ser (segmentSpec e0 ip0 pmtu j)"
    using ser by (simp add: segmentsSpec_def)
  have "fragmentLoop fuel ser forward fr (headerSize ip0) ?mss ?psize (offsetBase ip0)
           (ipFlags ip0) (int 0 * ?mss) (drop (0 * nat ?mss) (take (nat ?psize) (ipPayload ip0)))
           (setEthLength e0 ?i1) (?i1\<lparr>ipFragOffset := ipFragOffset ip0\<rparr>) s
         = Some (None, forwardAll ser fr forward (map (segmentSpec e0 ip0 pmtu) [0 ..< ?n]) s)"
    by (rule fragmentLoop_segments [OF mss ps _ _ all]) (use fuel in simp_all)
  then show ?thesis
    unfolding fragment_def Let_def segmentsSpec_def using ps by simp
qed

lemma fragmentLoop_stuck:
  assumes "0 < psize" and "0 < length payload"
  shows "fragmentLoop fuel ser forward fr hs 0 psize base origFlags 0 payload e i s \<noteq> Some (None, s')"
proof (induction fuel arbitrary: i s)
  case 0
  then show ?case by simp
next
  case (Suc fuel)
  have ns: "nextSegment hs 0 base origFlags 0 payload e i
        = Some ([], payload, e, i\<lparr>ipFragOffset := word_of_int (drop_bit 3 (0 + base))\<rparr>)"
    using assms(2) by (simp add: nextSegment_def)
  show ?case using assms(1) Suc.IH by (simp add: ns split: sum.splits)
qed

lemma fragmentLoop_stuck_None:
  assumes "0 < psize" and "0 < length payload" and "\<forall>e i p. serializes ser (e, i, p)"
  shows "fragmentLoop fuel ser forward fr hs 0 psize base origFlags 0 payload e i s = None"
proof (induction fuel arbitrary: i s)
  case 0
  then show ?case by simp
next
  case (Suc fuel)
  have ns: "nextSegment hs 0 base origFlags 0 payload e i
        = Some ([], payload, e, i\<lparr>ipFragOffset := word_of_int (drop_bit 3 (0 + base))\<rparr>)"
    using assms(2) by (simp add: nextSegment_def)
  obtain buf where
    "ser e (i\<lparr>ipFragOffset := word_of_int (drop_bit 3 (0 + base))\<rparr>) [] = Inr buf"
    using assms(3)
    by (cases "ser e (i\<lparr>ipFragOffset := word_of_int (drop_bit 3 (0 + base))\<rparr>) []")
       (auto simp: serializes_def split: sum.splits)
  then show ?case using assms(1) Suc.IH by (simp add: ns)
qed

lemma fragment_not_normal:
  assumes "maxSegmentSize pmtu ip0 \<le> 0" and "0 < payloadSize ip0"
  shows "fragment fuel ser e0 ip0 pmtu fr forward s \<noteq> Some (None, s')"
proof (cases "int (length (ipPayload ip0)) < payloadSize ip0")
  case True
  then show ?thesis by (simp add: fragment_def Let_def)
next
  case False
  let ?P = "take (nat (payloadSize ip0)) (ipPayload ip0)"
  have len: "0 < length ?P" using False assms(2) by simp
  show ?thesis
  proof (cases "maxSegmentSize pmtu ip0 = 0")
    case True
    show ?thesis
      unfolding fragment_def Let_def True
      using False assms(2) fragmentLoop_stuck [OF assms(2) len] by simp
  next
    case neg: False
    with assms(1) have neg: "maxSegmentSize pmtu ip0 < 0" by simp
    have ns: "nextSegment hs (maxSegmentSize pmtu ip0) base fl off ?P e i = None" for hs base fl off e i
      using neg by (simp add: nextSegment_def)
    show ?thesis
    proof (cases fuel)
      case 0
      then show ?thesis by (simp add: fragment_def Let_def)
    next
      case (Suc m)
      show ?thesis
        unfolding fragment_def Let_def Suc
        using False assms(2) by (simp add: ns del: length_take)
    qed
  qed
qed

lemma length_segmentsSpec:
  "length (segmentsSpec e0 ip0 pmtu) = segmentCount (payloadSize ip0) (maxSegmentSize pmtu ip0)"
  by (simp add: segmentsSpec_def)

lemma nth_segmentsSpec:
  "k < segmentCount (payloadSize ip0) (maxSegmentSize pmtu ip0)
   \<Longrightarrow> segmentsSpec e0 ip0 pmtu ! k = segmentSpec e0 ip0 pmtu k"
  by (simp add: segmentsSpec_def)

lemma segmentSpec_fields:
  "ipFragOffset (fst (snd (segmentSpec e0 ip0 pmtu k)))
     = word_of_int ((int k * maxSegmentSize pmtu ip0 + 8 * uint (ipFragOffset ip0)) div 8)"
  "ipFlags (fst (snd (segmentSpec e0 ip0 pmtu k)))
     = (if Suc k = segmentCount (payloadSize ip0) (maxSegmentSize pmtu ip0)
        then ipFlags ip0 else ipFlags ip0 OR IPv4MoreFragments)"
  "snd (snd (segmentSpec e0 ip0 pmtu k))
     = take (nat (maxSegmentSize pmtu ip0)) (drop (k * nat (maxSegmentSize pmtu ip0))
         (take (nat (payloadSize ip0)) (ipPayload ip0)))"
  by (simp_all add: segmentSpec_def Let_def offsetBase_def drop_bit_eq_div push_bit_eq_mult
        mult.commute)

lemma payloadSize_le: "payloadSize ip0 < 65536"
proof -
  have "uint (ipLength ip0) < 65536" using uint_lt2p [of "ipLength ip0"] by simp
  moreover have "0 \<le> uint (ipIHL ip0)" by simp
  ultimately show ?thesis unfolding payloadSize_def headerSize_def by linarith
qed

lemma fragOffset_uint:
  assumes mss: "0 < maxSegmentSize pmtu ip0" and ps: "0 \<le> payloadSize ip0"
    and k: "k < segmentCount (payloadSize ip0) (maxSegmentSize pmtu ip0)"
    and f: "uint (ipFragOffset ip0) < 8192"
  shows "uint (word_of_int ((int k * maxSegmentSize pmtu ip0 + 8 * uint (ipFragOffset ip0)) div 8)
               :: 16 word)
         = (int k * maxSegmentSize pmtu ip0 + 8 * uint (ipFragOffset ip0)) div 8"
proof -
  let ?x = "(int k * maxSegmentSize pmtu ip0 + 8 * uint (ipFragOffset ip0)) div 8"
  have "int k * maxSegmentSize pmtu ip0 < payloadSize ip0"
    using k mss ps by (simp add: segmentCount_less_iff)
  then have lt: "int k * maxSegmentSize pmtu ip0 < 65536" using payloadSize_le [of ip0] by simp
  have ge: "0 \<le> int k * maxSegmentSize pmtu ip0" using mss by simp
  have "0 \<le> ?x" using ge by (simp add: pos_imp_zdiv_nonneg_iff)
  moreover have "?x < 2 ^ 16" using lt f by simp
  ultimately have "?x mod 2 ^ 16 = ?x" by (rule mod_pos_pos_trivial)
  then show ?thesis by (subst uint_word_of_int) simp
qed

lemma fragment_panics:
  assumes neg: "maxSegmentSize pmtu ip0 < 0" and ps: "0 < payloadSize ip0"
    and len: "payloadSize ip0 \<le> int (length (ipPayload ip0))"
  shows "fragment (Suc fuel) ser e0 ip0 pmtu fr forward s
         = Some (Some (Panic ''slice bounds out of range''), s)"
proof -
  have ns: "nextSegment hs (maxSegmentSize pmtu ip0) base fl off P e i = None" for hs base fl off P e i
    using neg by (simp add: nextSegment_def)
  show ?thesis
    unfolding fragment_def Let_def using ps len by (simp add: ns)
qed

lemma fragment_diverges:
  assumes zero: "maxSegmentSize pmtu ip0 = 0" and ps: "0 < payloadSize ip0"
    and len: "payloadSize ip0 \<le> int (length (ipPayload ip0))"
    and ser: "\<forall>seg. serializes ser seg"
  shows "fragment fuel ser e0 ip0 pmtu fr forward s = None"
proof -
  have l: "0 < length (take (nat (payloadSize ip0)) (ipPayload ip0))" using ps len by simp
  have s: "\<forall>e i p. serializes ser (e, i, p)" using ser by simp
  show ?thesis
    unfolding fragment_def Let_def zero
    using ps len fragmentLoop_stuck_None [OF ps l s] by simp
qed

text \<open>The callback of the dispatcher only appends to the DF channel.\<close>

lemma chanSend_append:
  "chanSend c f (conn\<lparr>frames := (frames conn)(c := frames conn c @ segs)\<rparr>)
   = conn\<lparr>frames := (frames conn)(c := frames conn c @ segs @ [f])\<rparr>"
  by (simp add: chanSend_def)

lemma forwardAll_chanSend_gen:
  "forwardAll ser fr (chanSend c) segs (conn\<lparr>frames := (frames conn)(c := frames conn c @ pre)\<rparr>)
   = conn\<lparr>frames := (frames conn)(c := frames conn c @ pre @ map (segFrame ser fr) segs)\<rparr>"
proof (induction segs arbitrary: pre)
  case Nil
  then show ?case by (simp add: forwardAll_Nil)
next
  case (Cons seg segs)
  have "forwardAll ser fr (chanSend c) (seg # segs)
          (conn\<lparr>frames := (frames conn)(c := frames conn c @ pre)\<rparr>)
        = forwardAll ser fr (chanSend c) segs
          (conn\<lparr>frames := (frames conn)(c := frames conn c @ pre @ [segFrame ser fr seg])\<rparr>)"
    by (simp only: forwardAll_Cons chanSend_append)
  also have "\<dots> = conn\<lparr>frames := (frames conn)(c := frames conn c
                  @ (pre @ [segFrame ser fr seg]) @ map (segFrame ser fr) segs)\<rparr>"
    by (rule Cons.IH)
  finally show ?case by (simp only: append_assoc append_Cons append_Nil list.map)
qed

lemma forwardAll_chanSend:
  "forwardAll ser fr (chanSend c) segs conn
   = conn\<lparr>frames := (frames conn)(c := frames conn c @ map (segFrame ser fr) segs)\<rparr>"
  using forwardAll_chanSend_gen [of ser fr c segs conn "[]"] by simp

lemma fragmentLoop_chanSend:
  "fragmentLoop fuel ser (chanSend c) fr hs mss psize base fl off payload e i
      (conn\<lparr>frames := (frames conn)(c := frames conn c @ pre)\<rparr>) = Some (err, conn')
   \<Longrightarrow> \<exists>segs. conn' = conn\<lparr>frames := (frames conn)(c := frames conn c @ segs)\<rparr>"
proof (induction fuel arbitrary: off payload e i pre)
  case 0
  then show ?case by simp
next
  case (Suc fuel)
  show ?case
  proof (cases "off < psize")
    case False
    with Suc.prems show ?thesis by auto
  next
    case True
    show ?thesis
    proof (cases "nextSegment hs mss base fl off payload e i")
      case None
      with Suc.prems True show ?thesis by auto
    next
      case (Some t)
      obtain sp payload' e' i' where t: "t = (sp, payload', e', i')" by (cases t) auto
      show ?thesis
      proof (cases "ser e' i' sp")
        case (Inl x)
        with Suc.prems True Some t show ?thesis by auto
      next
        case (Inr buf)
        with Suc.prems True Some t have
          "fragmentLoop fuel ser (chanSend c) fr hs mss psize base fl (off + mss) payload' e' i'
             (conn\<lparr>frames := (frames conn)(c := frames conn c @ pre @ [fr\<lparr>frame := buf\<rparr>])\<rparr>)
           = Some (err, conn')"
          by (simp only: fragmentLoop.simps if_True option.case prod.case sum.case
                chanSend_append)
        then show ?thesis by (rule Suc.IH)
      qed
    qed
  qed
qed

lemma fragment_chanSend:
  assumes "fragment fuel ser e0 ip0 pmtu fr (chanSend c) conn = Some (err, conn')"
  shows "\<exists>segs. conn' = conn\<lparr>frames := (frames conn)(c := frames conn c @ segs)\<rparr>"
proof (cases "payloadSize ip0 < 0 \<or> int (length (ipPayload ip0)) < payloadSize ip0")
  case True
  with assms have "conn' = conn" by (auto simp: fragment_def Let_def)
  then have "conn' = conn\<lparr>frames := (frames conn)(c := frames conn c @ [])\<rparr>" by simp
  then show ?thesis by blast
next
  case False
  have "conn = conn\<lparr>frames := (frames conn)(c := frames conn c @ [])\<rparr>" by simp
  with assms False obtain hs mss psize base fl off payload e i where
    "fragmentLoop fuel ser (chanSend c) fr hs mss psize base fl off payload e i
      (conn\<lparr>frames := (frames conn)(c := frames conn c @ [])\<rparr>) = Some (err, conn')"
    unfolding fragment_def Let_def by (metis (full_types))
  then show ?thesis by (rule fragmentLoop_chanSend)
qed

lemma Forward_fragments:
  assumes h: "forwardChan conn = Some fc" "forwardChanDF conn = Some fcDF"
    and br: "\<not> stackFrag conn" "2 \<le> length (decoded d)"
      "\<not> int (length (frame fr)) - EthernetOverhead \<le> clientPMTU conn"
    and ps: "0 \<le> payloadSize (ip d)" "payloadSize (ip d) \<le> int (length (ipPayload (ip d)))"
    and mss: "0 < maxSegmentSize (clientPMTU conn) (ip d)"
    and ser: "\<forall>seg \<in> set (segmentsSpec (eth d) (ip d) (clientPMTU conn)). serializes ser seg"
    and fuel: "segmentCount (payloadSize (ip d)) (maxSegmentSize (clientPMTU conn) (ip d)) < fuel"
  shows "Forward fuel ser conn False fr (Some d)
         = Some (None, conn\<lparr>frames := (frames conn)(fcDF := frames conn fcDF
                   @ map (segFrame ser fr) (segmentsSpec (eth d) (ip d) (clientPMTU conn)))\<rparr>)"
proof -
  have "Forward fuel ser conn False fr (Some d)
        = fragment fuel ser (eth d) (ip d) (clientPMTU conn) fr (chanSend fcDF) conn"
    using h br by (simp add: Forward_def)
  also have "\<dots> = Some (None, forwardAll ser fr (chanSend fcDF)
                       (segmentsSpec (eth d) (ip d) (clientPMTU conn)) conn)"
    by (rule fragment_refines [OF mss ps ser fuel])
  finally show ?thesis by (simp only: forwardAll_chanSend)
qed

text \<open>Facts about the example values.\<close>

lemma ex_sizes:
  "headerSize (exIP len off payload) = 20"
  "payloadSize (exIP len off payload) = uint len - 20"
  "maxSegmentSize pmtu (exIP len off payload) = 8 * ((pmtu - 34) div 8)"
  "ipPayload (exIP len off payload) = payload"
  "ipFlags (exIP len off payload) = 0"
  "ipFragOffset (exIP len off payload) = off"
  unfolding maxSegmentSize_def and_not_7
  by (simp_all add: headerSize_def payloadSize_def exIP_def EthernetOverhead_def)

lemma serializes_exSer: "serializes exSer seg"
  by (cases seg) (simp add: serializes_def exSer_def)

lemma segmentCount_3: "segmentCount 2466 960 = 3"
  by (simp add: segmentCount_def)

lemma segmentCount_2466: "segmentCount (payloadSize (exIP 2486 off (replicate 2466 0)))
    (maxSegmentSize 1000 (exIP 2486 off (replicate 2466 0))) = 3"
  by (simp add: ex_sizes segmentCount_3)

lemma exSegments:
  "segmentsSpec exEth (exIP 2486 0 (replicate 2466 0)) 1000
   = [(exEth, (exIP 2486 0 (replicate 2466 0))\<lparr>ipFragOffset := 0, ipFlags := 1, ipLength := 980\<rparr>,
        replicate 960 0),
      (exEth, (exIP 2486 0 (replicate 2466 0))\<lparr>ipFragOffset := 120, ipFlags := 1, ipLength := 980\<rparr>,
        replicate 960 0),
      (exEth, (exIP 2486 0 (replicate 2466 0))\<lparr>ipFragOffset := 240, ipFlags := 0, ipLength := 566\<rparr>,
        replicate 546 0)]"
proof -
  have upt3: "[0 ..< 3] = [0, 1, 2]" by code_simp
  show ?thesis
    unfolding segmentsSpec_def segmentCount_2466 upt3
    by (simp add: segmentSpec_def Let_def ex_sizes segmentCount_3 offsetBase_def
          IPv4MoreFragments_def exEth_def EthernetTypeLLC_def drop_bit_eq_div)
qed

subsection \<open>The dispatcher\<close>

text \<open>
  C1. A call \<^verbatim>\<open>Forward(true, frame, _)\<close> made while both queue handles are non-nil
  appends the frame to the DF queue and returns nil if and only if
  \<open>len(frame) - EthernetOverhead \<le> clientPMTU\<close> (so a frame of exactly
  \<open>clientPMTU + EthernetOverhead\<close> bytes passes); otherwise it returns
  \<^verbatim>\<open>FrameTooBigError\<close> carrying the current \<open>clientPMTU\<close> and leaves the
  connection, both queues included, as it was.
\<close>

theorem Forward_df:
  assumes "forwardChan conn = Some fc" and "forwardChanDF conn = Some fcDF"
  shows "Forward fuel ser conn True fr dec =
           (if int (length (frame fr)) - EthernetOverhead \<le> clientPMTU conn
            then Some (None, conn\<lparr>frames := (frames conn)(fcDF := frames conn fcDF @ [fr])\<rparr>)
            else Some (Some (FrameTooBigError (clientPMTU conn) (Some fr)), conn))
         \<and> (int (length (frame fr)) = clientPMTU conn + EthernetOverhead
              \<longrightarrow> Forward fuel ser conn True fr dec
                  = Some (None, conn\<lparr>frames := (frames conn)(fcDF := frames conn fcDF @ [fr])\<rparr>))
         \<and> (int (length (frame fr)) = clientPMTU conn + EthernetOverhead + 1
              \<longrightarrow> Forward fuel ser conn True fr dec
                  = Some (Some (FrameTooBigError (clientPMTU conn) (Some fr)), conn))"
  using assms by (simp add: Forward_def chanSend_def)

theorem Forward_df_witness:
  "Forward 0 exSer exConn True (exFrame 1014) None
     = Some (None, exConn\<lparr>frames := (frames exConn)(1 := frames exConn 1 @ [exFrame 1014])\<rparr>)
   \<and> Forward 0 exSer exConn True (exFrame 1015) None
     = Some (Some (FrameTooBigError 1000 (Some (exFrame 1015))), exConn)"
proof -
  have h: "forwardChan exConn = Some 0" "forwardChanDF exConn = Some 1"
    by (simp_all add: exConn_def)
  have a: "int (length (frame (exFrame 1014))) = clientPMTU exConn + EthernetOverhead"
    by (simp add: exFrame_def exConn_def EthernetOverhead_def)
  have b: "int (length (frame (exFrame 1015))) = clientPMTU exConn + EthernetOverhead + 1"
    by (simp add: exFrame_def exConn_def EthernetOverhead_def)
  have c: "clientPMTU exConn = 1000"
    by (simp add: exConn_def)
  from Forward_df [OF h, of 0 exSer "exFrame 1014" None] a
    Forward_df [OF h, of 0 exSer "exFrame 1015" None] b c
  show ?thesis by simp
qed

text \<open>
  C9. If either forward-queue handle the dispatcher reads is nil, the call returns
  nil and changes nothing: neither the connection's fields nor any channel buffer.
  In particular that holds for every call made on a connection that
  \<^verbatim>\<open>stopForwarders\<close> has returned from, since it left both handles nil.
\<close>

theorem Forward_nil_handle:
  "(forwardChan conn = None \<or> forwardChanDF conn = None
      \<longrightarrow> Forward fuel ser conn df fr dec = Some (None, conn))
   \<and> (stopForwarders conn = Some conn'
      \<longrightarrow> forwardChan conn' = None \<and> forwardChanDF conn' = None
          \<and> frames conn' = frames conn
          \<and> Forward fuel ser conn' df fr dec = Some (None, conn'))"
proof -
  have nil: "Forward fuel ser c df fr dec = Some (None, c)"
    if "forwardChan c = None \<or> forwardChanDF c = None" for c
    using that by (auto simp: Forward_def split: option.splits)
  have stop: "forwardChan conn' = None \<and> forwardChanDF conn' = None \<and> frames conn' = frames conn"
    if "stopForwarders conn = Some conn'"
    using that
    by (auto simp: stopForwarders_def signalSend_def Let_def split: if_splits option.splits)
  show ?thesis using nil stop by blast
qed

theorem Forward_nil_handle_witness:
  "stopForwarders exConn
     = Some (exConn\<lparr>forwardChan := None, forwardChanDF := None,
                     signals := (signals exConn)(2 := 1, 3 := 1)\<rparr>)
   \<and> Forward 5 exSer
        (exConn\<lparr>forwardChan := None, forwardChanDF := None,
                signals := (signals exConn)(2 := 1, 3 := 1)\<rparr>) False (exFrame 2500) None
     = Some (None, exConn\<lparr>forwardChan := None, forwardChanDF := None,
                          signals := (signals exConn)(2 := 1, 3 := 1)\<rparr>)"
proof -
  have s: "stopForwarders exConn
     = Some (exConn\<lparr>forwardChan := None, forwardChanDF := None,
                     signals := (signals exConn)(2 := 1, 3 := 1)\<rparr>)"
    by (simp add: stopForwarders_def signalSend_def exConn_def Let_def)
  from Forward_nil_handle [of exConn 5 exSer False "exFrame 2500" None
      "exConn\<lparr>forwardChan := None, forwardChanDF := None,
              signals := (signals exConn)(2 := 1, 3 := 1)\<rparr>"] s
  show ?thesis by simp
qed

text \<open>
  C2. A call \<^verbatim>\<open>Forward(false, frame, dec)\<close> made while both queue handles are
  non-nil: if \<open>stackFrag\<close> holds, or \<open>dec\<close> is nil, or fewer than two layers were
  decoded, the frame is appended to the non-DF queue and nil is returned; otherwise, if
  \<open>len(frame) - EthernetOverhead \<le> clientPMTU\<close>, the frame is appended whole to the DF
  queue and nil is returned; otherwise the result is the fragmenter's, run on the
  decoded headers with the current \<open>clientPMTU\<close> and a callback that appends to the DF
  queue. Whatever the fragmenter returns there, the connection it leaves differs from
  the one it started from only by frames appended to the DF queue.
\<close>

theorem Forward_nondf:
  assumes "forwardChan conn = Some fc" and "forwardChanDF conn = Some fcDF"
  shows "Forward fuel ser conn False fr dec =
           (if stackFrag conn \<or> dec = None \<or> length (decoded (the dec)) < 2
            then Some (None, conn\<lparr>frames := (frames conn)(fc := frames conn fc @ [fr])\<rparr>)
            else if int (length (frame fr)) - EthernetOverhead \<le> clientPMTU conn
            then Some (None, conn\<lparr>frames := (frames conn)(fcDF := frames conn fcDF @ [fr])\<rparr>)
            else fragment fuel ser (eth (the dec)) (ip (the dec)) (clientPMTU conn) fr
                   (chanSend fcDF) conn)
         \<and> (\<forall>e0 ip0 err conn'.
               fragment fuel ser e0 ip0 (clientPMTU conn) fr (chanSend fcDF) conn = Some (err, conn')
               \<longrightarrow> (\<exists>segs. conn' = conn\<lparr>frames := (frames conn)(fcDF := frames conn fcDF @ segs)\<rparr>))"
proof -
  have "Forward fuel ser conn False fr dec =
           (if stackFrag conn \<or> dec = None \<or> length (decoded (the dec)) < 2
            then Some (None, conn\<lparr>frames := (frames conn)(fc := frames conn fc @ [fr])\<rparr>)
            else if int (length (frame fr)) - EthernetOverhead \<le> clientPMTU conn
            then Some (None, conn\<lparr>frames := (frames conn)(fcDF := frames conn fcDF @ [fr])\<rparr>)
            else fragment fuel ser (eth (the dec)) (ip (the dec)) (clientPMTU conn) fr
                   (chanSend fcDF) conn)"
    using assms by (cases dec) (simp_all add: Forward_def chanSend_def)
  then show ?thesis using fragment_chanSend by blast
qed

theorem Forward_nondf_witness:
  "Forward 0 exSer exConn False (exFrame 100) None
     = Some (None, exConn\<lparr>frames := (frames exConn)(0 := frames exConn 0 @ [exFrame 100])\<rparr>)
   \<and> Forward 0 exSer exConn False (exFrame 1014) (Some (exDec (exIP 1000 0 (replicate 980 0))))
     = Some (None, exConn\<lparr>frames := (frames exConn)(1 := frames exConn 1 @ [exFrame 1014])\<rparr>)
   \<and> Forward 4 exSer exConn False (exFrame 2500) (Some (exDec (exIP 2486 0 (replicate 2466 0))))
     = fragment 4 exSer exEth (exIP 2486 0 (replicate 2466 0)) 1000 (exFrame 2500)
         (chanSend 1) exConn"
proof -
  have h: "forwardChan exConn = Some 0" "forwardChanDF exConn = Some 1"
    by (simp_all add: exConn_def)
  have c: "clientPMTU exConn = 1000" "\<not> stackFrag exConn"
    by (simp_all add: exConn_def)
  from Forward_nondf [OF h, of 0 exSer "exFrame 100" None]
    Forward_nondf [OF h, of 0 exSer "exFrame 1014" "Some (exDec (exIP 1000 0 (replicate 980 0)))"]
    Forward_nondf [OF h, of 4 exSer "exFrame 2500" "Some (exDec (exIP 2486 0 (replicate 2466 0)))"]
  show ?thesis
    by (simp add: c exDec_def exFrame_def EthernetOverhead_def)
qed

text \<open>
  C4 (as amended). With \<open>stackFrag = false\<close>, \<open>clientPMTU = 1000\<close> and a 2500-byte
  frame decoded as Ethernet and IPv4 (no IP options, total length 2486, the original
  fragment offset zero), the dispatcher's fragmentation path appends exactly three
  segments to the DF queue, with fragment offsets 0, 120 and 240 (in 8-byte units) and
  960, 960 and 546 bytes of IP payload, MoreFragments joined to the flags of the first
  two and the original flags on the third:
  \<open>max_segment_size = (1000 - 14 - 20) AND NOT 7 = 960\<close>.
  The specification's figures (offsets 0, 122, 244 and 968 bytes) do not hold, as the
  run of the scenario below shows.
\<close>

theorem Forward_S3:
  fixes d :: EthernetDecoder
  defines "segs \<equiv> segmentsSpec (eth d) (ip d) 1000"
  assumes h: "forwardChan conn = Some fc" "forwardChanDF conn = Some fcDF"
    and c: "\<not> stackFrag conn" "clientPMTU conn = 1000" "length (frame fr) = 2500"
    and dec: "2 \<le> length (decoded d)" "ipIHL (ip d) = 5" "ipLength (ip d) = 2486"
      "length (ipPayload (ip d)) = 2466" "ipFragOffset (ip d) = 0"
    and ser: "\<forall>seg \<in> set segs. serializes ser seg"
    and fuel: "3 < fuel"
  shows "Forward fuel ser conn False fr (Some d)
           = Some (None, conn\<lparr>frames := (frames conn)(fcDF := frames conn fcDF
                     @ map (segFrame ser fr) segs)\<rparr>)
       \<and> length segs = 3
       \<and> map (\<lambda>seg. uint (ipFragOffset (fst (snd seg)))) segs = [0, 120, 240]
       \<and> map (\<lambda>seg. length (snd (snd seg))) segs = [960, 960, 546]
       \<and> map (\<lambda>seg. ipFlags (fst (snd seg))) segs
           = [ipFlags (ip d) OR IPv4MoreFragments, ipFlags (ip d) OR IPv4MoreFragments,
              ipFlags (ip d)]"
proof -
  have hs: "headerSize (ip d) = 20" using dec by (simp add: headerSize_def)
  have ps: "payloadSize (ip d) = 2466" using dec hs by (simp add: payloadSize_def)
  have mss: "maxSegmentSize 1000 (ip d) = 960"
    unfolding maxSegmentSize_def and_not_7 using hs by (simp add: EthernetOverhead_def)
  have n: "segmentCount (payloadSize (ip d)) (maxSegmentSize 1000 (ip d)) = 3"
    by (simp add: ps mss segmentCount_3)
  have upt3: "[0 ..< 3] = [0, 1, 2]" by code_simp
  have segs: "segs = [segmentSpec (eth d) (ip d) 1000 0, segmentSpec (eth d) (ip d) 1000 1,
                      segmentSpec (eth d) (ip d) 1000 2]"
    unfolding segs_def segmentsSpec_def n upt3 by simp
  have a: "Forward fuel ser conn False fr (Some d)
           = Some (None, conn\<lparr>frames := (frames conn)(fcDF := frames conn fcDF
                     @ map (segFrame ser fr) (segmentsSpec (eth d) (ip d) (clientPMTU conn)))\<rparr>)"
    by (rule Forward_fragments [OF h])
       (use c dec ser fuel in \<open>simp_all add: ps mss segmentCount_3 EthernetOverhead_def segs_def\<close>)
  have b: "map (\<lambda>seg. uint (ipFragOffset (fst (snd seg)))) segs = [0, 120, 240]"
    unfolding segs by (simp add: segmentSpec_fields mss dec)
  have l: "map (\<lambda>seg. length (snd (snd seg))) segs = [960, 960, 546]"
    unfolding segs by (simp add: segmentSpec_fields mss dec ps)
  have f: "map (\<lambda>seg. ipFlags (fst (snd seg))) segs
           = [ipFlags (ip d) OR IPv4MoreFragments, ipFlags (ip d) OR IPv4MoreFragments,
              ipFlags (ip d)]"
    unfolding segs by (simp add: segmentSpec_fields n)
  from a b l f segs c(2) show ?thesis by (simp add: segs_def)
qed

theorem Forward_S3_witness:
  "Forward 4 exSer exConn False (exFrame 2500) (Some (exDec (exIP 2486 0 (replicate 2466 0))))
     = Some (None, exConn\<lparr>frames := (frames exConn)(1 := frames exConn 1
          @ map (segFrame exSer (exFrame 2500))
              (segmentsSpec exEth (exIP 2486 0 (replicate 2466 0)) 1000))\<rparr>)
   \<and> map (\<lambda>seg. uint (ipFragOffset (fst (snd seg))))
         (segmentsSpec exEth (exIP 2486 0 (replicate 2466 0)) 1000) = [0, 120, 240]
   \<and> map (\<lambda>seg. length (snd (snd seg)))
         (segmentsSpec exEth (exIP 2486 0 (replicate 2466 0)) 1000) = [960, 960, 546]"
proof -
  let ?ip = "exIP 2486 0 (replicate 2466 0)"
  have h: "forwardChan exConn = Some 0" "forwardChanDF exConn = Some 1"
    by (simp_all add: exConn_def)
  have c: "\<not> stackFrag exConn" "clientPMTU exConn = 1000" "length (frame (exFrame 2500)) = 2500"
    by (simp_all add: exConn_def exFrame_def)
  have d: "2 \<le> length (decoded (exDec ?ip))" "ipIHL (ip (exDec ?ip)) = 5"
    "ipLength (ip (exDec ?ip)) = 2486" "length (ipPayload (ip (exDec ?ip))) = 2466"
    "ipFragOffset (ip (exDec ?ip)) = 0"
    by (simp_all add: exDec_def exIP_def)
  have s: "\<forall>seg \<in> set (segmentsSpec (eth (exDec ?ip)) (ip (exDec ?ip)) 1000).
             serializes exSer seg"
    by (simp add: serializes_exSer)
  from Forward_S3 [OF h c d s, of 4] show ?thesis by (simp add: exDec_def)
qed

theorem Forward_S3_counterexample:
  "Forward 4 probeSer exConn False (exFrame 2500)
      (Some (exDec (exIP 2486 0 (replicate 2466 0)))) = Some (None, exS3)
   \<and> \<not> S3_claimed (frames exS3 1)"
proof -
  let ?ip = "exIP 2486 0 (replicate 2466 0)"
  have h: "forwardChan exConn = Some 0" "forwardChanDF exConn = Some 1"
    by (simp_all add: exConn_def)
  have pr: "serializes probeSer seg" for seg
    by (cases seg) (simp add: serializes_def probeSer_def)
  have e: "eth (exDec ?ip) = exEth" "ip (exDec ?ip) = ?ip" "clientPMTU exConn = 1000"
    "frames exConn 1 = []"
    by (simp_all add: exDec_def exConn_def)
  have "Forward 4 probeSer exConn False (exFrame 2500) (Some (exDec ?ip))
        = Some (None, exConn\<lparr>frames := (frames exConn)(1 := frames exConn 1
             @ map (segFrame probeSer (exFrame 2500))
                 (segmentsSpec (eth (exDec ?ip)) (ip (exDec ?ip)) (clientPMTU exConn)))\<rparr>)"
    by (rule Forward_fragments [OF h])
       (simp_all add: exConn_def exDec_def exFrame_def ex_sizes segmentCount_3 pr
          EthernetOverhead_def)
  also have "\<dots> = Some (None, exS3)"
    unfolding e exSegments
    by (simp add: exS3_def segFrame_def probeSer_def exFrame_def exIP_def)
  finally have a: "Forward 4 probeSer exConn False (exFrame 2500) (Some (exDec ?ip))
        = Some (None, exS3)" .
  have b: "\<not> S3_claimed (frames exS3 1)"
    by (simp add: S3_claimed_def exS3_def)
  from a b show ?thesis by simp
qed

subsection \<open>The fragmenter\<close>

text \<open>
  C6. For an input of the fragmenter (decoded Ethernet and IPv4 headers, with
  \<open>header_size = IHL * 4\<close>): \<open>max_segment_size\<close> is
  \<open>pmtu - EthernetOverhead - header_size\<close> rounded down to a multiple of 8; the
  fragmenter returns nil after handing over exactly the segments of the closed form,
  in order; segment \<open>k\<close> carries the fragment offset
  \<open>(byte_offset + original offset in bytes) >> 3\<close>, where \<open>byte_offset = k * max_segment_size\<close>
  and the original offset in bytes is the header's field times 8 (as a 16-bit field,
  and as a number when the original field is a 13-bit value); every segment but the
  last carries the original flags joined with MoreFragments and the last one the
  original flags; and an input whose payload size equals \<open>max_segment_size\<close> yields
  exactly one segment, with the original flags and the whole payload.
  The statements about the segments are made where the fragmenter runs to its end: the
  payload the decoder left holds \<open>payloadSize\<close> bytes, \<open>max_segment_size\<close> is at
  least 8, and the library's serializer accepts each segment.
\<close>

theorem fragment_segments:
  fixes e0 ip0 pmtu
  defines "mss \<equiv> maxSegmentSize pmtu ip0"
    and "segs \<equiv> segmentsSpec e0 ip0 pmtu"
  shows "headerSize ip0 = uint (ipIHL ip0) * 4
     \<and> mss = 8 * ((pmtu - EthernetOverhead - headerSize ip0) div 8)
     \<and> offsetBase ip0 = 8 * uint (ipFragOffset ip0)
     \<and> (0 \<le> payloadSize ip0 \<and> payloadSize ip0 \<le> int (length (ipPayload ip0))
          \<and> 8 \<le> mss \<and> (\<forall>seg \<in> set segs. serializes ser seg) \<and> length segs < fuel \<longrightarrow>
          fragment fuel ser e0 ip0 pmtu fr forward s
            = Some (None, forwardAll ser fr forward segs s)
        \<and> (\<forall>k < length segs.
              ipFragOffset (fst (snd (segs ! k)))
                = word_of_int (drop_bit 3 (int k * mss + offsetBase ip0))
            \<and> (uint (ipFragOffset ip0) < 8192 \<longrightarrow>
                 uint (ipFragOffset (fst (snd (segs ! k))))
                   = (int k * mss + offsetBase ip0) div 8)
            \<and> ipFlags (fst (snd (segs ! k)))
                = (if Suc k < length segs then ipFlags ip0 OR IPv4MoreFragments
                   else ipFlags ip0)
            \<and> snd (snd (segs ! k))
                = take (nat mss)
                    (drop (k * nat mss) (take (nat (payloadSize ip0)) (ipPayload ip0))))
        \<and> (payloadSize ip0 = mss \<longrightarrow>
              length segs = 1 \<and> ipFlags (fst (snd (segs ! 0))) = ipFlags ip0
            \<and> snd (snd (segs ! 0)) = take (nat (payloadSize ip0)) (ipPayload ip0)))"
proof -
  have len: "length segs = segmentCount (payloadSize ip0) mss"
    by (simp add: segs_def mss_def length_segmentsSpec)
  have a: "headerSize ip0 = uint (ipIHL ip0) * 4" by (simp add: headerSize_def)
  have b: "mss = 8 * ((pmtu - EthernetOverhead - headerSize ip0) div 8)"
    unfolding mss_def maxSegmentSize_def by (rule and_not_7)
  have ob: "offsetBase ip0 = 8 * uint (ipFragOffset ip0)"
    by (simp add: offsetBase_def push_bit_eq_mult)
  have rest: "fragment fuel ser e0 ip0 pmtu fr forward s
            = Some (None, forwardAll ser fr forward segs s)
        \<and> (\<forall>k < length segs.
              ipFragOffset (fst (snd (segs ! k)))
                = word_of_int (drop_bit 3 (int k * mss + offsetBase ip0))
            \<and> (uint (ipFragOffset ip0) < 8192 \<longrightarrow>
                 uint (ipFragOffset (fst (snd (segs ! k))))
                   = (int k * mss + offsetBase ip0) div 8)
            \<and> ipFlags (fst (snd (segs ! k)))
                = (if Suc k < length segs then ipFlags ip0 OR IPv4MoreFragments
                   else ipFlags ip0)
            \<and> snd (snd (segs ! k))
                = take (nat mss)
                    (drop (k * nat mss) (take (nat (payloadSize ip0)) (ipPayload ip0))))
        \<and> (payloadSize ip0 = mss \<longrightarrow>
              length segs = 1 \<and> ipFlags (fst (snd (segs ! 0))) = ipFlags ip0
            \<and> snd (snd (segs ! 0)) = take (nat (payloadSize ip0)) (ipPayload ip0))"
    if ps: "0 \<le> payloadSize ip0" "payloadSize ip0 \<le> int (length (ipPayload ip0))"
      and mss: "8 \<le> mss"
      and ser: "\<forall>seg \<in> set segs. serializes ser seg"
      and fuel: "length segs < fuel"
  proof -
    have pos: "0 < maxSegmentSize pmtu ip0" using mss by (simp add: mss_def)
    have c: "fragment fuel ser e0 ip0 pmtu fr forward s
               = Some (None, forwardAll ser fr forward segs s)"
      unfolding segs_def
      by (rule fragment_refines [OF pos ps])
         (use ser fuel len in \<open>simp_all add: segs_def mss_def\<close>)
    have d: "ipFragOffset (fst (snd (segs ! k)))
               = word_of_int (drop_bit 3 (int k * mss + offsetBase ip0))
           \<and> (uint (ipFragOffset ip0) < 8192 \<longrightarrow>
                uint (ipFragOffset (fst (snd (segs ! k))))
                  = (int k * mss + offsetBase ip0) div 8)
           \<and> ipFlags (fst (snd (segs ! k)))
               = (if Suc k < length segs then ipFlags ip0 OR IPv4MoreFragments
                  else ipFlags ip0)
           \<and> snd (snd (segs ! k))
               = take (nat mss)
                   (drop (k * nat mss) (take (nat (payloadSize ip0)) (ipPayload ip0)))"
      if k: "k < length segs" for k
    proof -
      have kk: "k < segmentCount (payloadSize ip0) (maxSegmentSize pmtu ip0)"
        using k len by (simp add: mss_def)
      have nth: "segs ! k = segmentSpec e0 ip0 pmtu k"
        unfolding segs_def by (rule nth_segmentsSpec [OF kk])
      have fin: "Suc k = segmentCount (payloadSize ip0) (maxSegmentSize pmtu ip0)
                   \<longleftrightarrow> \<not> Suc k < length segs"
        using k len by (auto simp: mss_def)
      show ?thesis
        unfolding nth mss_def ob
        using fragOffset_uint [OF pos ps(1) kk] fin
        by (simp add: segmentSpec_fields drop_bit_eq_div)
    qed
    have e: "length segs = 1 \<and> ipFlags (fst (snd (segs ! 0))) = ipFlags ip0
           \<and> snd (snd (segs ! 0)) = take (nat (payloadSize ip0)) (ipPayload ip0)"
      if eq: "payloadSize ip0 = mss"
    proof -
      have mp: "0 < mss" "0 \<le> mss" using mss by simp_all
      have "0 < segmentCount mss mss" "\<not> 1 < segmentCount mss mss"
        using segmentCount_less_iff [OF mp, of 0] segmentCount_less_iff [OF mp, of 1] mp
        by simp_all
      then have "segmentCount mss mss = 1" by linarith
      then have one: "length segs = 1" using len eq by simp
      then show ?thesis using d [of 0] eq by simp
    qed
    from c d e show ?thesis by blast
  qed
  from a b ob rest show ?thesis by blast
qed

theorem fragment_segments_witness:
  "maxSegmentSize 1000 (exIP 2486 0 (replicate 2466 0)) = 8 * ((1000 - 14 - 20) div 8)
   \<and> length (segmentsSpec exEth (exIP 2486 0 (replicate 2466 0)) 1000) = 3
   \<and> fragment 4 exSer exEth (exIP 2486 0 (replicate 2466 0)) 1000 (exFrame 2500)
        (\<lambda>f q. q @ [f]) []
       = Some (None, forwardAll exSer (exFrame 2500) (\<lambda>f q. q @ [f])
                 (segmentsSpec exEth (exIP 2486 0 (replicate 2466 0)) 1000) [])
   \<and> length (segmentsSpec exEth (exIP 1020 0 (replicate 1000 0)) 1034) = 1
   \<and> fragment 2 exSer exEth (exIP 1020 0 (replicate 1000 0)) 1034 (exFrame 1034)
        (\<lambda>f q. q @ [f]) []
       = Some (None, forwardAll exSer (exFrame 1034) (\<lambda>f q. q @ [f])
                 (segmentsSpec exEth (exIP 1020 0 (replicate 1000 0)) 1034) [])
   \<and> ipFlags (fst (snd (segmentsSpec exEth (exIP 1020 0 (replicate 1000 0)) 1034 ! 0))) = 0"
proof -
  let ?ip = "exIP 2486 0 (replicate 2466 0)" and ?ip1 = "exIP 1020 0 (replicate 1000 0)"
  have len: "length (segmentsSpec exEth ?ip 1000) = 3"
    by (simp add: length_segmentsSpec ex_sizes segmentCount_3)
  have l1: "length (segmentsSpec exEth ?ip1 1034) = 1"
    by (simp add: length_segmentsSpec ex_sizes segmentCount_def)
  have h: "0 \<le> payloadSize ?ip \<and> payloadSize ?ip \<le> int (length (ipPayload ?ip))
    \<and> 8 \<le> maxSegmentSize 1000 ?ip
    \<and> (\<forall>seg \<in> set (segmentsSpec exEth ?ip 1000). serializes exSer seg)
    \<and> length (segmentsSpec exEth ?ip 1000) < 4"
    by (simp add: ex_sizes serializes_exSer len)
  have h1: "0 \<le> payloadSize ?ip1 \<and> payloadSize ?ip1 \<le> int (length (ipPayload ?ip1))
    \<and> 8 \<le> maxSegmentSize 1034 ?ip1
    \<and> (\<forall>seg \<in> set (segmentsSpec exEth ?ip1 1034). serializes exSer seg)
    \<and> length (segmentsSpec exEth ?ip1 1034) < 2"
    by (simp add: ex_sizes serializes_exSer l1)
  have eq1: "payloadSize ?ip1 = maxSegmentSize 1034 ?ip1" by (simp add: ex_sizes)
  note A = fragment_segments [where pmtu = 1000 and ?ip0.0 = ?ip and ?e0.0 = exEth
      and ser = exSer and fuel = 4 and fr = "exFrame 2500" and forward = "\<lambda>f q. q @ [f]"
      and s = "[]"]
  note B = fragment_segments [where pmtu = 1034 and ?ip0.0 = ?ip1 and ?e0.0 = exEth
      and ser = exSer and fuel = 2 and fr = "exFrame 1034" and forward = "\<lambda>f q. q @ [f]"
      and s = "[]"]
  from A h have a: "fragment 4 exSer exEth ?ip 1000 (exFrame 2500) (\<lambda>f q. q @ [f]) []
       = Some (None, forwardAll exSer (exFrame 2500) (\<lambda>f q. q @ [f])
                 (segmentsSpec exEth ?ip 1000) [])"
    by blast
  from A have m: "maxSegmentSize 1000 ?ip = 8 * ((1000 - 14 - 20) div 8)"
    by (simp add: ex_sizes EthernetOverhead_def)
  from B h1 eq1 have b: "fragment 2 exSer exEth ?ip1 1034 (exFrame 1034) (\<lambda>f q. q @ [f]) []
       = Some (None, forwardAll exSer (exFrame 1034) (\<lambda>f q. q @ [f])
                 (segmentsSpec exEth ?ip1 1034) [])
     \<and> ipFlags (fst (snd (segmentsSpec exEth ?ip1 1034 ! 0))) = ipFlags ?ip1"
    by blast
  from a m b len l1 show ?thesis by (simp add: ex_sizes)
qed

text \<open>
  C10. When \<open>max_segment_size\<close> is at least 8 the fragmenter returns for every input
  (one unit of fuel per segment and one more are enough, whatever the serializer
  answers), and when the payload holds \<open>payloadSize\<close> bytes and the serializer
  accepts each segment it returns nil after \<open>\<lceil>payloadSize / max_segment_size\<rceil>\<close>
  segments. When \<open>max_segment_size\<close> is zero or negative and the IP payload is not
  empty, no amount of fuel makes it return nil: a negative size is a slice out of
  bounds on the first pass, and with size zero the offset never advances, so the loop
  runs for ever unless the serializer fails.
\<close>

theorem fragment_terminates:
  fixes e0 ip0 pmtu
  defines "mss \<equiv> maxSegmentSize pmtu ip0"
    and "psize \<equiv> payloadSize ip0"
    and "segs \<equiv> segmentsSpec e0 ip0 pmtu"
  shows "(8 \<le> mss \<longrightarrow>
            (\<forall>fuel. segmentCount psize mss < fuel \<longrightarrow>
                (\<exists>r. fragment fuel ser e0 ip0 pmtu fr forward s = Some r))
          \<and> (0 \<le> psize \<and> psize \<le> int (length (ipPayload ip0))
               \<and> (\<forall>seg \<in> set segs. serializes ser seg) \<longrightarrow>
                (\<forall>fuel. segmentCount psize mss < fuel \<longrightarrow>
                    fragment fuel ser e0 ip0 pmtu fr forward s
                    = Some (None, forwardAll ser fr forward segs s))
              \<and> length segs = nat \<lceil>real_of_int psize / real_of_int mss\<rceil>))
       \<and> (mss \<le> 0 \<and> 0 < psize \<longrightarrow>
            (\<forall>fuel s'. fragment fuel ser e0 ip0 pmtu fr forward s \<noteq> Some (None, s'))
          \<and> (mss < 0 \<and> psize \<le> int (length (ipPayload ip0)) \<longrightarrow>
                (\<forall>fuel. fragment (Suc fuel) ser e0 ip0 pmtu fr forward s
                    = Some (Some (Panic ''slice bounds out of range''), s)))
          \<and> (mss = 0 \<and> psize \<le> int (length (ipPayload ip0))
               \<and> (\<forall>seg. serializes ser seg) \<longrightarrow>
                (\<forall>fuel. fragment fuel ser e0 ip0 pmtu fr forward s = None)))"
proof -
  have a: "\<exists>r. fragment fuel ser e0 ip0 pmtu fr forward s = Some r"
    if "8 \<le> mss" "segmentCount psize mss < fuel" for fuel
    using that fragment_returns [of pmtu ip0 fuel ser e0 fr forward s]
    by (simp add: mss_def psize_def)
  have b: "fragment fuel ser e0 ip0 pmtu fr forward s
             = Some (None, forwardAll ser fr forward segs s)"
    if "8 \<le> mss" "0 \<le> psize" "psize \<le> int (length (ipPayload ip0))"
      "\<forall>seg \<in> set segs. serializes ser seg" "segmentCount psize mss < fuel" for fuel
    unfolding segs_def
    by (rule fragment_refines) (use that in \<open>simp_all add: mss_def psize_def segs_def\<close>)
  have c: "length segs = nat \<lceil>real_of_int psize / real_of_int mss\<rceil>" if "8 \<le> mss"
    using that segmentCount_ceiling [of mss psize]
    by (simp add: segs_def length_segmentsSpec mss_def psize_def)
  have d: "fragment fuel ser e0 ip0 pmtu fr forward s \<noteq> Some (None, s')"
    if "mss \<le> 0" "0 < psize" for fuel s'
    using that fragment_not_normal [of pmtu ip0 fuel ser e0 fr forward s s']
    by (simp add: mss_def psize_def)
  have e: "fragment (Suc fuel) ser e0 ip0 pmtu fr forward s
             = Some (Some (Panic ''slice bounds out of range''), s)"
    if "mss < 0" "0 < psize" "psize \<le> int (length (ipPayload ip0))" for fuel
    using that fragment_panics [of pmtu ip0 fuel ser e0 fr forward s]
    by (simp add: mss_def psize_def)
  have f: "fragment fuel ser e0 ip0 pmtu fr forward s = None"
    if "mss = 0" "0 < psize" "psize \<le> int (length (ipPayload ip0))" "\<forall>seg. serializes ser seg"
    for fuel
    using that fragment_diverges [of pmtu ip0 ser fuel e0 fr forward s]
    by (simp add: mss_def psize_def)
  from a b c d e f show ?thesis by blast
qed

theorem fragment_terminates_witness:
  "fragment 4 exSer exEth (exIP 2486 0 (replicate 2466 0)) 1000 (exFrame 2500)
        (\<lambda>f q. q @ [f]) []
     = Some (None, forwardAll exSer (exFrame 2500) (\<lambda>f q. q @ [f])
               (segmentsSpec exEth (exIP 2486 0 (replicate 2466 0)) 1000) [])
   \<and> length (segmentsSpec exEth (exIP 2486 0 (replicate 2466 0)) 1000) = 3
   \<and> nat \<lceil>real_of_int 2466 / real_of_int 960\<rceil> = 3
   \<and> fragment 1000 exSer exEth (exIP 120 0 (replicate 100 0)) 34 (exFrame 134)
        (\<lambda>f q. q @ [f]) [] = None
   \<and> fragment 1 exSer exEth (exIP 120 0 (replicate 100 0)) 30 (exFrame 134)
        (\<lambda>f q. q @ [f]) [] = Some (Some (Panic ''slice bounds out of range''), [])"
proof -
  let ?ip = "exIP 2486 0 (replicate 2466 0)" and ?ip1 = "exIP 120 0 (replicate 100 0)"
  let ?fwd = "\<lambda>f q. q @ [f :: ForwardedFrame]"
  note A = fragment_terminates [of 1000 ?ip exSer exEth "exFrame 2500" ?fwd "[]"]
  note B = fragment_terminates [of 34 ?ip1 exSer exEth "exFrame 134" ?fwd "[]"]
  note C = fragment_terminates [of 30 ?ip1 exSer exEth "exFrame 134" ?fwd "[]"]
  have c: "nat \<lceil>real_of_int 2466 / real_of_int 960\<rceil> = 3"
    using segmentCount_ceiling [of 960 2466] by (simp add: segmentCount_3)
  have m30: "maxSegmentSize 30 ?ip1 = -8" by (simp add: ex_sizes)
  from A have a: "fragment 4 exSer exEth ?ip 1000 (exFrame 2500) ?fwd []
     = Some (None, forwardAll exSer (exFrame 2500) ?fwd (segmentsSpec exEth ?ip 1000) [])
     \<and> length (segmentsSpec exEth ?ip 1000) = 3"
    using c by (simp add: ex_sizes serializes_exSer segmentCount_3)
  from B have b: "fragment 1000 exSer exEth ?ip1 34 (exFrame 134) ?fwd [] = None"
    by (simp add: ex_sizes serializes_exSer)
  from C have d: "fragment 1 exSer exEth ?ip1 30 (exFrame 134) ?fwd []
       = Some (Some (Panic ''slice bounds out of range''), [])"
    by (simp add: ex_sizes m30)
  from a b c d show ?thesis by simp
qed

subsection \<open>The pipeline\<close>

text \<open>
  The verification sends in closed form, and \<^verbatim>\<open>updateClientPMTU\<close> in its two cases.
\<close>

lemma verifySends_eq:
  "verifySends env vf n s
   = s\<lparr>fwEnc := verifyEnc env vf n (fwEnc s),
        fwSent := fwSent s @ map (\<lambda>d. (fwMaxPayload s, d)) (verifyDatagrams env vf n (fwEnc s))\<rparr>"
proof (induction n arbitrary: s)
  case 0
  then show ?case by simp
next
  case (Suc n)
  show ?case
    by (simp add: Suc.IH sendBytes_def split: prod.splits)
qed

lemma length_verifyDatagrams: "length (verifyDatagrams env vf n e) = n"
  by (induction n arbitrary: e) simp_all

lemma updateClientPMTU_ok:
  assumes "0 \<le> fwClientPMTU s + EthernetOverhead"
  shows "updateClientPMTU env s
   = s\<lparr>fwConn := (fwConn s)\<lparr>clientPMTU := fwClientPMTU s\<rparr>,
        fwEnc := verifyEnc env (verifyFrame (fwConn s) (fwClientPMTU s)) 10 (fwEnc s),
        fwSent := fwSent s @ map (\<lambda>d. (fwMaxPayload s, d))
                    (verifyDatagrams env (verifyFrame (fwConn s) (fwClientPMTU s)) 10 (fwEnc s)),
        fwPmtuVerifyTick := True\<rparr>"
  using assms
  by (simp add: updateClientPMTU_def Let_def verifySends_eq setClientPMTU_def verifyFrame_def
        del: verifySends.simps verifyEnc.simps verifyDatagrams.simps)

lemma updateClientPMTU_panic:
  assumes "fwClientPMTU s + EthernetOverhead < 0"
  shows "updateClientPMTU env s
   = s\<lparr>fwConn := (fwConn s)\<lparr>clientPMTU := fwClientPMTU s\<rparr>,
        fwStatus := Panicked ''makeslice: len out of range''\<rparr>"
  using assms by (simp add: updateClientPMTU_def Let_def setClientPMTU_def)

lemma loopIter_tick:
  assumes running: "fwStatus s = Running" and armed: "fwPmtuVerifyTick s"
  shows "loopIter env SelTick s
        = (if \<not> isClientPMTUVerfied (fwConn s)
           then updateClientPMTU env (s\<lparr>fwPmtuVerifyTick := False, fwClientPMTU := fwClientPMTU s - 10\<rparr>)
           else s\<lparr>fwPmtuVerifyTick := False\<rparr>)"
  using running armed by (simp add: loopIter_def Let_def)

lemma tick_ok:
  fixes s :: "'e Forwarder"
  assumes "0 \<le> c + EthernetOverhead"
  shows "updateClientPMTU env (s\<lparr>fwPmtuVerifyTick := False, fwClientPMTU := c\<rparr>)
              = s\<lparr>fwConn := (fwConn s)\<lparr>clientPMTU := c\<rparr>, fwClientPMTU := c,
                   fwEnc := verifyEnc env (verifyFrame (fwConn s) c) 10 (fwEnc s),
                   fwSent := fwSent s @ map (\<lambda>d. (fwMaxPayload s, d))
                               (verifyDatagrams env (verifyFrame (fwConn s) c) 10 (fwEnc s)),
                   fwPmtuVerifyTick := True\<rparr>"
  using assms
    by (simp add: updateClientPMTU_ok 
          del: verifyEnc.simps verifyDatagrams.simps)

lemma tick_bad:
  fixes s :: "'e Forwarder"
  assumes "c + EthernetOverhead < 0"
  shows "updateClientPMTU env (s\<lparr>fwPmtuVerifyTick := False, fwClientPMTU := c\<rparr>)
              = s\<lparr>fwConn := (fwConn s)\<lparr>clientPMTU := c\<rparr>, fwClientPMTU := c,
                   fwPmtuVerifyTick := False,
                   fwStatus := Panicked ''makeslice: len out of range''\<rparr>"
  using assms by (simp add: updateClientPMTU_panic)

lemma length_verifyFrame:
  "0 \<le> c + EthernetOverhead \<Longrightarrow> int (length (frame (verifyFrame conn c))) = c + EthernetOverhead"
  by (simp add: verifyFrame_def)

lemma flush_unfold_too_big:
  assumes bytes: "Bytes env (fwEnc s) = (msg, e')"
    and send: "udpSend env (length (fwSent s)) msg = Some (FrameTooBigError pmtu f)"
  shows "flush env s
         = updateClientPMTU env
             (s\<lparr>fwEnc := e', fwSent := fwSent s @ [(fwMaxPayload s, msg)],
                fwMaxPayload := pmtu - UDPOverhead env,
                fwClientPMTU := pmtu - UDPOverhead env - PacketOverhead env e'
                                - FrameOverhead env e' - EthernetOverhead\<rparr>)"
  using bytes send by (simp add: flush_def sendBytes_def)

lemma flush_ok:
  fixes s :: "'e Forwarder"
  assumes "0 \<le> c + EthernetOverhead"
  shows "updateClientPMTU env
             (s\<lparr>fwEnc := e', fwSent := fwSent s @ [(fwMaxPayload s, msg)],
                fwMaxPayload := mp, fwClientPMTU := c\<rparr>)
         = s\<lparr>fwConn := (fwConn s)\<lparr>clientPMTU := c\<rparr>,
              fwMaxPayload := mp, fwClientPMTU := c,
              fwEnc := verifyEnc env (verifyFrame (fwConn s) c) 10 e',
              fwSent := fwSent s @ (fwMaxPayload s, msg)
                          # map (\<lambda>d. (mp, d)) (verifyDatagrams env (verifyFrame (fwConn s) c) 10 e'),
              fwPmtuVerifyTick := True\<rparr>"
  using assms
  by (simp add: updateClientPMTU_ok del: verifyEnc.simps verifyDatagrams.simps)

lemma flush_bad:
  fixes s :: "'e Forwarder"
  assumes "c + EthernetOverhead < 0"
  shows "updateClientPMTU env
             (s\<lparr>fwEnc := e', fwSent := fwSent s @ [(fwMaxPayload s, msg)],
                fwMaxPayload := mp, fwClientPMTU := c\<rparr>)
         = s\<lparr>fwConn := (fwConn s)\<lparr>clientPMTU := c\<rparr>,
              fwMaxPayload := mp, fwClientPMTU := c, fwEnc := e',
              fwSent := fwSent s @ [(fwMaxPayload s, msg)],
              fwStatus := Panicked ''makeslice: len out of range''\<rparr>"
  using assms by (simp add: updateClientPMTU_panic)

lemma updateClientPMTU_pmtu:
  "fwClientPMTU (updateClientPMTU env s) = fwClientPMTU s"
  "clientPMTU (fwConn (updateClientPMTU env s)) = fwClientPMTU s"
  by (cases "fwClientPMTU s + EthernetOverhead < 0";
      simp add: updateClientPMTU_panic updateClientPMTU_ok not_less
        del: verifyEnc.simps verifyDatagrams.simps)+

text \<open>
  The invariant of the loop under an encryptor whose accounting is accurate.
\<close>

lemma accurateD:
  assumes "accurate env"
  shows "TotalLen env (AppendFrame env f e)
           \<le> TotalLen env e + FrameOverhead env e + int (length (frame f))"
    and "int (length (fst (Bytes env e))) \<le> TotalLen env e + PacketOverhead env e"
    and "TotalLen env (snd (Bytes env e)) \<le> PacketOverhead env e"
    and "FrameOverhead env (AppendFrame env f e) = FrameOverhead env e"
    and "PacketOverhead env (AppendFrame env f e) = PacketOverhead env e"
    and "FrameOverhead env (snd (Bytes env e)) = FrameOverhead env e"
    and "PacketOverhead env (snd (Bytes env e)) = PacketOverhead env e"
  using assms unfolding accurate_def by blast+

lemma encOverheads_append:
  "accurate env \<Longrightarrow> encOverheads env po fo e \<Longrightarrow> encOverheads env po fo (AppendFrame env f e)"
  by (simp add: encOverheads_def accurateD)

lemma encOverheads_bytes:
  "accurate env \<Longrightarrow> encOverheads env po fo e \<Longrightarrow> encOverheads env po fo (snd (Bytes env e))"
  by (simp add: encOverheads_def accurateD)

text \<open>One hand-over of the builder's datagram.\<close>

lemma sendBytes_fields:
  "fwMaxPayload (snd (sendBytes env s)) = fwMaxPayload s"
  "fwClientPMTU (snd (sendBytes env s)) = fwClientPMTU s"
  "fwPmtuVerifyTick (snd (sendBytes env s)) = fwPmtuVerifyTick s"
  "fwStatus (snd (sendBytes env s)) = fwStatus s"
  "fwEnc (snd (sendBytes env s)) = snd (Bytes env (fwEnc s))"
  "fwSent (snd (sendBytes env s)) = fwSent s @ [(fwMaxPayload s, fst (Bytes env (fwEnc s)))]"
  by (simp_all add: sendBytes_def split: prod.splits)

lemma sendBytes_inv:
  assumes acc: "accurate env" and ov: "encOverheads env po fo (fwEnc s)"
    and sb: "sentBounded po s" and tl: "TotalLen env (fwEnc s) \<le> fwMaxPayload s"
  shows "encOverheads env po fo (fwEnc (snd (sendBytes env s)))"
    and "sentBounded po (snd (sendBytes env s))"
    and "TotalLen env (fwEnc (snd (sendBytes env s))) \<le> po"
proof -
  have po: "PacketOverhead env (fwEnc s) = po" using ov by (simp add: encOverheads_def)
  show "encOverheads env po fo (fwEnc (snd (sendBytes env s)))"
    using acc ov by (simp add: sendBytes_fields encOverheads_bytes)
  have "int (length (fst (Bytes env (fwEnc s)))) \<le> TotalLen env (fwEnc s) + po"
    using accurateD(2) [OF acc, of "fwEnc s"] po by simp
  with tl have "int (length (fst (Bytes env (fwEnc s)))) \<le> fwMaxPayload s + po" by linarith
  with sb show "sentBounded po (snd (sendBytes env s))"
    by (simp add: sentBounded_def sendBytes_fields)
  show "TotalLen env (fwEnc (snd (sendBytes env s))) \<le> po"
    using accurateD(3) [OF acc, of "fwEnc s"] po by (simp add: sendBytes_fields)
qed

text \<open>The verification sends.\<close>

lemma verifySends_fields:
  "fwMaxPayload (verifySends env vf n s) = fwMaxPayload s"
  "fwClientPMTU (verifySends env vf n s) = fwClientPMTU s"
  "fwPmtuVerifyTick (verifySends env vf n s) = fwPmtuVerifyTick s"
  "fwStatus (verifySends env vf n s) = fwStatus s"
  by (simp_all add: verifySends_eq del: verifySends.simps)

lemma verifySends_inv:
  assumes acc: "accurate env"
  shows "encOverheads env po fo (fwEnc s) \<Longrightarrow> sentBounded po s
     \<Longrightarrow> TotalLen env (fwEnc s) \<le> po
     \<Longrightarrow> int (length (frame vf)) + fo + po \<le> fwMaxPayload s
     \<Longrightarrow> encOverheads env po fo (fwEnc (verifySends env vf n s))
         \<and> sentBounded po (verifySends env vf n s)
         \<and> TotalLen env (fwEnc (verifySends env vf n s)) \<le> po"
proof (induction n arbitrary: s)
  case 0
  then show ?case by simp
next
  case (Suc n)
  let ?s1 = "s\<lparr>fwEnc := AppendFrame env vf (fwEnc s)\<rparr>"
  have fo: "FrameOverhead env (fwEnc s) = fo" using Suc.prems(1) by (simp add: encOverheads_def)
  have ov1: "encOverheads env po fo (fwEnc ?s1)"
    using acc Suc.prems(1) by (simp add: encOverheads_append)
  have sb1: "sentBounded po ?s1" using Suc.prems(2) by (simp add: sentBounded_def)
  have "TotalLen env (fwEnc ?s1) \<le> TotalLen env (fwEnc s) + fo + int (length (frame vf))"
    using accurateD(1) [OF acc, of vf "fwEnc s"] fo by simp
  with Suc.prems(3,4) have tl1: "TotalLen env (fwEnc ?s1) \<le> fwMaxPayload ?s1" by simp
  note sb = sendBytes_inv [OF acc ov1 sb1 tl1]
  have mp: "fwMaxPayload (snd (sendBytes env ?s1)) = fwMaxPayload s"
    by (simp add: sendBytes_fields)
  have "encOverheads env po fo (fwEnc (verifySends env vf n (snd (sendBytes env ?s1))))
         \<and> sentBounded po (verifySends env vf n (snd (sendBytes env ?s1)))
         \<and> TotalLen env (fwEnc (verifySends env vf n (snd (sendBytes env ?s1)))) \<le> po"
    by (rule Suc.IH [OF sb]) (use Suc.prems(4) mp in simp)
  then show ?case by simp
qed

lemma updateClientPMTU_inv:
  assumes acc: "accurate env" and ov: "encOverheads env po fo (fwEnc s)"
    and sb: "sentBounded po s" and tl: "TotalLen env (fwEnc s) \<le> po"
    and fit: "fwClientPMTU s + EthernetOverhead + po + fo \<le> fwMaxPayload s"
  shows "fwInv env po fo (updateClientPMTU env s)"
proof (cases "fwClientPMTU s + EthernetOverhead < 0")
  case True
  show ?thesis
    using ov sb fit
    by (simp add: updateClientPMTU_panic [OF True] fwInv_def sentBounded_def tickFits_def)
next
  case False
  let ?vf = "\<lparr>srcPeer = localPeer (fwConn s), dstPeer = remotePeer (fwConn s),
               frame = replicate (nat (fwClientPMTU s + EthernetOverhead)) 0\<rparr>"
  let ?s1 = "s\<lparr>fwConn := setClientPMTU (fwClientPMTU s) (fwConn s)\<rparr>"
  have up: "updateClientPMTU env s = (verifySends env ?vf 10 ?s1)\<lparr>fwPmtuVerifyTick := True\<rparr>"
    using False
    by (simp add: updateClientPMTU_def Let_def setClientPMTU_def del: verifySends.simps)
  have len: "int (length (frame ?vf)) + fo + po \<le> fwMaxPayload ?s1"
    using False fit by simp
  have "encOverheads env po fo (fwEnc (verifySends env ?vf 10 ?s1))
         \<and> sentBounded po (verifySends env ?vf 10 ?s1)
         \<and> TotalLen env (fwEnc (verifySends env ?vf 10 ?s1)) \<le> po"
    by (rule verifySends_inv [OF acc _ _ _ len]) (use ov sb tl in \<open>simp_all add: sentBounded_def\<close>)
  then show ?thesis
    unfolding up using fit
    by (simp add: fwInv_def sentBounded_def tickFits_def verifySends_fields
          del: verifySends.simps)
qed

lemma flush_inv:
  assumes acc: "accurate env" and b: "batchInv env po fo s"
  shows "fwInv env po fo (flush env s)"
proof -
  from b have ov: "encOverheads env po fo (fwEnc s)" and sb: "sentBounded po s"
    and tf: "tickFits po fo s" and tl: "TotalLen env (fwEnc s) \<le> fwMaxPayload s"
    by (simp_all add: batchInv_def)
  obtain err s1 where sd: "sendBytes env s = (err, s1)" by (cases "sendBytes env s") auto
  then have s1: "s1 = snd (sendBytes env s)" by simp
  note inv1 = sendBytes_inv [OF acc ov sb tl, folded s1]
  have tf1: "tickFits po fo s1" using tf by (simp add: s1 tickFits_def sendBytes_fields)
  have plain: "fwInv env po fo s1" using inv1 tf1 by (simp add: fwInv_def)
  have fatal: "fwInv env po fo (s1\<lparr>fwFatal := fwFatal s1 @ [e]\<rparr>)" for e
    using plain by (simp add: fwInv_def sentBounded_def tickFits_def)
  show ?thesis
  proof (cases err)
    case None
    then show ?thesis using sd plain by (simp add: flush_def)
  next
    case (Some e)
    show ?thesis
    proof (cases e)
      case (FrameTooBigError pmtu f)
      let ?s2 = "s1\<lparr>fwMaxPayload := pmtu - UDPOverhead env,
                    fwClientPMTU := pmtu - UDPOverhead env - PacketOverhead env (fwEnc s1)
                                    - FrameOverhead env (fwEnc s1) - EthernetOverhead\<rparr>"
      have fl: "flush env s = updateClientPMTU env ?s2"
        using sd Some FrameTooBigError by (simp add: flush_def)
      have ovs: "PacketOverhead env (fwEnc s1) = po" "FrameOverhead env (fwEnc s1) = fo"
        using inv1(1) by (simp_all add: encOverheads_def)
      show ?thesis
        unfolding fl
        by (rule updateClientPMTU_inv [OF acc])
           (use inv1 ovs in \<open>simp_all add: sentBounded_def\<close>)
    next
      case ENOBUFS
      then show ?thesis using sd Some plain by (simp add: flush_def)
    next
      case (OtherError x)
      then show ?thesis using sd Some fatal by (simp add: flush_def)
    next
      case (Panic x)
      then show ?thesis using sd Some fatal by (simp add: flush_def)
    qed
  qed
qed

lemma appendFrame_True:
  assumes acc: "accurate env" and ov: "encOverheads env po fo (fwEnc s)"
    and sb: "sentBounded po s" and tf: "tickFits po fo s"
    and ap: "appendFrame env f s = (True, s1)"
  shows "batchInv env po fo s1" and "fwStatus s1 = fwStatus s" and "fwClosed s1 = fwClosed s"
    and "fwForwardCh s1 = fwForwardCh s"
proof -
  from ap have le: "TotalLen env (fwEnc s) + FrameOverhead env (fwEnc s) + int (length (frame f))
                      \<le> fwMaxPayload s"
    and s1: "s1 = s\<lparr>fwEnc := AppendFrame env f (fwEnc s)\<rparr>"
    by (auto simp: appendFrame_def split: if_splits)
  have "TotalLen env (AppendFrame env f (fwEnc s)) \<le> fwMaxPayload s"
    using accurateD(1) [OF acc, of f "fwEnc s"] le by linarith
  then show "batchInv env po fo s1"
    using acc ov sb tf
    by (simp add: s1 batchInv_def encOverheads_append sentBounded_def tickFits_def)
  show "fwStatus s1 = fwStatus s" "fwClosed s1 = fwClosed s" "fwForwardCh s1 = fwForwardCh s"
    by (simp_all add: s1)
qed

lemma appendFrame_False: "appendFrame env f s = (False, s1) \<Longrightarrow> s1 = s"
  by (auto simp: appendFrame_def split: if_splits)

lemma fwInv_parts:
  assumes "fwInv env po fo s"
  shows "encOverheads env po fo (fwEnc s)" "sentBounded po s" "tickFits po fo s"
  using assms by (simp_all add: fwInv_def)

lemma batchInv_parts:
  assumes "batchInv env po fo s"
  shows "encOverheads env po fo (fwEnc s)" "sentBounded po s" "tickFits po fo s"
  using assms by (simp_all add: batchInv_def)

lemma innerLoop_inv:
  assumes acc: "accurate env"
  shows "batchInv env po fo s \<Longrightarrow> fwInv env po fo (snd (innerLoop env q s))"
proof (induction q arbitrary: s)
  case Nil
  have "fwInv env po fo (s\<lparr>fwStatus := Returned\<rparr>)"
    using Nil by (simp add: batchInv_def fwInv_def sentBounded_def tickFits_def)
  then show ?case using flush_inv [OF acc Nil] by simp
next
  case (Cons f q)
  obtain ok s1 where ap: "appendFrame env f s = (ok, s1)" by (cases "appendFrame env f s") auto
  show ?case
  proof (cases ok)
    case True
    from ap True have ap': "appendFrame env f s = (True, s1)" by simp
    have "batchInv env po fo s1"
      by (rule appendFrame_True(1) [OF acc batchInv_parts [OF Cons.prems] ap'])
    then show ?thesis using ap True Cons.IH by simp
  next
    case False
    with ap have "appendFrame env f s = (False, s1)" by simp
    then have s1: "s1 = s" by (rule appendFrame_False)
    let ?s2 = "flush env s"
    have inv2: "fwInv env po fo ?s2" by (rule flush_inv [OF acc Cons.prems])
    show ?thesis
    proof (cases "fwStatus ?s2 = Running")
      case notrun: False
      then show ?thesis using ap False s1 inv2 by (simp add: Let_def)
    next
      case run: True
      obtain ok3 s3 where ap3: "appendFrame env f ?s2 = (ok3, s3)"
        by (cases "appendFrame env f ?s2") auto
      show ?thesis
      proof (cases ok3)
        case True
        from ap3 True have ap3': "appendFrame env f ?s2 = (True, s3)" by simp
        have "batchInv env po fo s3"
          by (rule appendFrame_True(1) [OF acc fwInv_parts [OF inv2] ap3'])
        then have "fwInv env po fo (snd (innerLoop env q s3))" by (rule Cons.IH)
        then show ?thesis using ap False s1 run ap3 True by (simp add: Let_def)
      next
        case f3: False
        with ap3 have "appendFrame env f ?s2 = (False, s3)" by simp
        then have "s3 = ?s2" by (rule appendFrame_False)
        then show ?thesis using ap False s1 run ap3 f3 inv2 by (simp add: Let_def)
      qed
    qed
  qed
qed

lemma fwInv_conn:
  "fwInv env po fo (s\<lparr>fwConn := c\<rparr>) = fwInv env po fo s"
  by (simp add: fwInv_def sentBounded_def tickFits_def)

lemma fwInv_not_running:
  assumes "fwInv env po fo s" and "st \<noteq> Running"
  shows "fwInv env po fo (s\<lparr>fwStatus := st\<rparr>)"
  using assms by (simp add: fwInv_def sentBounded_def tickFits_def)

lemma loopIter_inv:
  assumes acc: "accurate env" and inv: "fwInv env po fo s"
  shows "fwInv env po fo (loopIter env sel s)"
proof (cases "fwStatus s = Running")
  case False
  then show ?thesis using inv by (simp add: loopIter_def)
next
  case running: True
  note parts = fwInv_parts [OF inv]
  show ?thesis
  proof (cases sel)
    case SelStop
    have "fwInv env po fo (s\<lparr>fwConn := c, fwStatus := st\<rparr>)" if "st \<noteq> Running" for c st
      using fwInv_not_running [OF inv that] by (simp add: fwInv_def sentBounded_def tickFits_def)
    then show ?thesis
      using SelStop running inv by (simp add: loopIter_def Let_def)
  next
    case SelTick
    show ?thesis
    proof (cases "fwPmtuVerifyTick s")
      case False
      then show ?thesis using SelTick running inv by (simp add: loopIter_def)
    next
      case armed: True
      have off: "fwInv env po fo (s\<lparr>fwPmtuVerifyTick := False\<rparr>)"
        using inv by (simp add: fwInv_def sentBounded_def tickFits_def)
      have fit: "fwClientPMTU s + EthernetOverhead + po + fo \<le> fwMaxPayload s"
        using parts(3) armed by (simp add: tickFits_def)
      have tl: "TotalLen env (fwEnc s) \<le> po"
        using inv running armed by (simp add: fwInv_def)
      have upd: "fwInv env po fo
          (updateClientPMTU env (s\<lparr>fwPmtuVerifyTick := False, fwClientPMTU := fwClientPMTU s - 10\<rparr>))"
        by (rule updateClientPMTU_inv [OF acc])
           (use parts tl fit in \<open>simp_all add: sentBounded_def\<close>)
      show ?thesis
        unfolding SelTick loopIter_tick [OF running armed]
        using off upd by simp
    qed
  next
    case SelFrame
    show ?thesis
    proof (cases "frames (fwConn s) (fwForwardCh s)")
      case Nil
      have "fwInv env po fo (s\<lparr>fwStatus := Panicked ''nil pointer dereference''\<rparr>)"
        by (rule fwInv_not_running [OF inv]) simp
      then show ?thesis using SelFrame running Nil inv by (simp add: loopIter_def)
    next
      case (Cons f q)
      obtain ok s1 where ap: "appendFrame env f s = (ok, s1)"
        by (cases "appendFrame env f s") auto
      show ?thesis
      proof (cases ok)
        case False
        with ap have "appendFrame env f s = (False, s1)" by simp
        then have "s1 = s" by (rule appendFrame_False)
        then show ?thesis
          using SelFrame running Cons ap False inv by (simp add: loopIter_def fwInv_conn)
      next
        case True
        with ap have ap': "appendFrame env f s = (True, s1)" by simp
        have "batchInv env po fo s1" by (rule appendFrame_True(1) [OF acc parts ap'])
        then have "fwInv env po fo (snd (innerLoop env q s1))" by (rule innerLoop_inv [OF acc])
        then show ?thesis
          using SelFrame running Cons ap True
          by (auto simp: loopIter_def fwInv_conn split: prod.splits)
      qed
    qed
  qed
qed

lemma applyEvent_inv:
  assumes acc: "accurate env" and inv: "fwInv env po fo s"
  shows "fwInv env po fo (applyEvent env ev s)"
proof (cases ev)
  case (Select sel)
  then show ?thesis using loopIter_inv [OF acc inv] by simp
next
  case (Enqueue f)
  then show ?thesis using inv by (simp add: fwInv_conn)
next
  case (SetVerified b)
  then show ?thesis using inv by (simp add: fwInv_conn)
next
  case PostStop
  then show ?thesis using inv by (simp add: fwInv_conn)
next
  case Close
  then show ?thesis using inv by (simp add: fwInv_def sentBounded_def tickFits_def)
qed

lemma run_inv:
  assumes acc: "accurate env"
  shows "fwInv env po fo s \<Longrightarrow> fwInv env po fo (run env evs s)"
proof (induction evs arbitrary: s)
  case Nil
  then show ?case by (simp add: run_def)
next
  case (Cons ev evs)
  have "fwInv env po fo (applyEvent env ev s)" by (rule applyEvent_inv [OF acc Cons.prems])
  then have "fwInv env po fo (run env evs (applyEvent env ev s))" by (rule Cons.IH)
  then show ?case by (simp add: run_def)
qed

lemma init_inv:
  "fwInv env (PacketOverhead env enc0) (FrameOverhead env enc0)
     (forwarderLoopInit env conn forwardCh stop enc0 pmtu)"
  by (simp add: forwarderLoopInit_def fwInv_def encOverheads_def sentBounded_def tickFits_def)

text \<open>
  Evaluation of the examples.
\<close>

lemmas pipeline_eval =
  run_def loopIter_def appendFrame_def flush_def sendBytes_def updateClientPMTU_def
  verifySends_eq setClientPMTU_def isClientPMTUVerfied_def
  exEnv_def exFw_def forwarderLoopInit_def exConn_def exFrame_def tooBigOnce_def
  chanSend_def EthernetOverhead_def Let_def length_verifyDatagrams
  exCountdown_def exTicking_def exBatch_def pmtuAtLeast_def

lemma accurate_exEnv: "accurate (exEnv po fo sender)"
  by (simp add: accurate_def exEnv_def)

text \<open>
  C3 (as amended). When the send of a flush returns \<open>FrameTooBigError{pmtu}\<close>, the
  pipeline sets \<open>maxPayload = pmtu - UDPOverhead\<close> and
  \<open>clientPMTU = maxPayload - PacketOverhead - FrameOverhead - EthernetOverhead\<close> and
  writes the new \<open>clientPMTU\<close> to the connection. If \<open>clientPMTU + EthernetOverhead\<close>
  is not negative it then hands exactly 10 verification datagrams to the sender, each
  the encryptor's output for the verification frame alone, a frame of
  \<open>clientPMTU + EthernetOverhead\<close> bytes, and arms the verify timer.
\<close>

theorem flush_too_big:
  fixes s :: "'e Forwarder" and env :: "'e Env" and pmtu :: int
  defines "mp \<equiv> pmtu - UDPOverhead env"
  assumes bytes: "Bytes env (fwEnc s) = (msg, e')"
    and send: "udpSend env (length (fwSent s)) msg = Some (FrameTooBigError pmtu f)"
  defines "c \<equiv> pmtu - UDPOverhead env - PacketOverhead env e' - FrameOverhead env e'
                  - EthernetOverhead"
  defines "vf \<equiv> verifyFrame (fwConn s) c"
  shows "fwMaxPayload (flush env s) = mp
       \<and> fwClientPMTU (flush env s) = c
       \<and> clientPMTU (fwConn (flush env s)) = c
       \<and> (0 \<le> c + EthernetOverhead \<longrightarrow>
            flush env s
              = s\<lparr>fwConn := (fwConn s)\<lparr>clientPMTU := c\<rparr>,
                   fwMaxPayload := mp, fwClientPMTU := c,
                   fwEnc := verifyEnc env vf 10 e',
                   fwSent := fwSent s @ (fwMaxPayload s, msg)
                               # map (\<lambda>d. (mp, d)) (verifyDatagrams env vf 10 e'),
                   fwPmtuVerifyTick := True\<rparr>
          \<and> length (verifyDatagrams env vf 10 e') = 10
          \<and> int (length (frame vf)) = c + EthernetOverhead)"
proof -
  note fl = flush_unfold_too_big [OF bytes send, folded c_def mp_def]
  have ok: "flush env s
              = s\<lparr>fwConn := (fwConn s)\<lparr>clientPMTU := c\<rparr>,
                   fwMaxPayload := mp, fwClientPMTU := c,
                   fwEnc := verifyEnc env vf 10 e',
                   fwSent := fwSent s @ (fwMaxPayload s, msg)
                               # map (\<lambda>d. (mp, d)) (verifyDatagrams env vf 10 e'),
                   fwPmtuVerifyTick := True\<rparr>"
    if nn: "0 \<le> c + EthernetOverhead"
    unfolding fl vf_def by (rule flush_ok [OF nn])
  have bad: "flush env s
              = s\<lparr>fwConn := (fwConn s)\<lparr>clientPMTU := c\<rparr>,
                   fwMaxPayload := mp, fwClientPMTU := c, fwEnc := e',
                   fwSent := fwSent s @ [(fwMaxPayload s, msg)],
                   fwStatus := Panicked ''makeslice: len out of range''\<rparr>"
    if neg: "c + EthernetOverhead < 0"
    unfolding fl by (rule flush_bad [OF neg])
  have fields: "fwMaxPayload (flush env s) = mp \<and> fwClientPMTU (flush env s) = c
                  \<and> clientPMTU (fwConn (flush env s)) = c"
  proof (cases "0 \<le> c + EthernetOverhead")
    case True
    show ?thesis unfolding ok [OF True] by simp
  next
    case False
    then have neg: "c + EthernetOverhead < 0" by simp
    show ?thesis unfolding bad [OF neg] by simp
  qed
  have len: "length (verifyDatagrams env vf 10 e') = 10"
    by (rule length_verifyDatagrams)
  have fr: "int (length (frame vf)) = c + EthernetOverhead" if nn: "0 \<le> c + EthernetOverhead"
    unfolding vf_def by (rule length_verifyFrame [OF nn])
  from fields ok len fr show ?thesis by blast
qed

theorem flush_too_big_witness:
  "fwMaxPayload (flush (exEnv 0 2 (tooBigOnce 1400)) (exBatch 0 2 1400)) = 1400 - 28
   \<and> fwClientPMTU (flush (exEnv 0 2 (tooBigOnce 1400)) (exBatch 0 2 1400)) = 1400 - 28 - 0 - 2 - 14
   \<and> clientPMTU (fwConn (flush (exEnv 0 2 (tooBigOnce 1400)) (exBatch 0 2 1400))) = 1356
   \<and> length (fwSent (flush (exEnv 0 2 (tooBigOnce 1400)) (exBatch 0 2 1400))) = 11
   \<and> fwPmtuVerifyTick (flush (exEnv 0 2 (tooBigOnce 1400)) (exBatch 0 2 1400))"
proof -
  let ?env = "exEnv 0 2 (tooBigOnce 1400)" and ?s = "exBatch 0 2 1400"
  have b: "Bytes ?env (fwEnc ?s) = (replicate 102 0, [])"
    by (simp add: pipeline_eval replicate_add [symmetric])
  have u: "udpSend ?env (length (fwSent ?s)) (replicate 102 0) = Some (FrameTooBigError 1400 None)"
    by (simp add: pipeline_eval)
  have v: "UDPOverhead ?env = 28" "PacketOverhead ?env [] = 0" "FrameOverhead ?env [] = 2"
    "fwSent ?s = []"
    by (simp_all add: pipeline_eval)
  from flush_too_big [OF b u] show ?thesis
    by (simp add: v EthernetOverhead_def del: verifyEnc.simps verifyDatagrams.simps)
qed

text \<open>
  The claim as the specification states it, for every \<open>pmtu\<close>, fails: with an
  encryptor that adds 40 bytes to a datagram and 16 to a frame, and a sender that
  reports the smallest IPv4 path MTU, 68, the flush writes \<open>clientPMTU = - 30\<close>; the
  verification frame would have \<open>- 16\<close> bytes, building it panics, and the flush ends
  with no verification datagram sent and no timer armed.
\<close>

theorem flush_too_big_counterexample:
  "udpSend (exEnv 40 16 (tooBigOnce 68)) (length (fwSent (exBatch 40 16 68)))
       (fst (Bytes (exEnv 40 16 (tooBigOnce 68)) (fwEnc (exBatch 40 16 68))))
     = Some (FrameTooBigError 68 None)
   \<and> fwStatus (exBatch 40 16 68) = Running
   \<and> fwStatus (flush (exEnv 40 16 (tooBigOnce 68)) (exBatch 40 16 68))
       = Panicked ''makeslice: len out of range''
   \<and> clientPMTU (fwConn (flush (exEnv 40 16 (tooBigOnce 68)) (exBatch 40 16 68))) = - 30
   \<and> length (fwSent (flush (exEnv 40 16 (tooBigOnce 68)) (exBatch 40 16 68))) = 1
   \<and> \<not> fwPmtuVerifyTick (flush (exEnv 40 16 (tooBigOnce 68)) (exBatch 40 16 68))"
  by (simp add: pipeline_eval del: verifyEnc.simps verifyDatagrams.simps)

text \<open>
  C7 (as amended). When the verify timer fires (it was armed) and \<open>clientPMTU\<close> is not
  verified, the pipeline takes exactly 10 off \<open>clientPMTU\<close> and writes the new value to
  the connection; if the new \<open>clientPMTU + EthernetOverhead\<close> is not negative it hands
  10 verification datagrams to the sender, each the encryptor's output for a frame of
  that many bytes alone, and arms the timer again. When \<open>clientPMTU\<close> is verified the
  pass only clears the timer: \<open>clientPMTU\<close> stays and nothing is sent.
\<close>

theorem tick_verification:
  fixes s :: "'e Forwarder"
  defines "c \<equiv> fwClientPMTU s - 10"
  defines "vf \<equiv> verifyFrame (fwConn s) c"
  assumes running: "fwStatus s = Running" and armed: "fwPmtuVerifyTick s"
  shows "(\<not> isClientPMTUVerfied (fwConn s) \<longrightarrow>
            fwClientPMTU (loopIter env SelTick s) = c
          \<and> clientPMTU (fwConn (loopIter env SelTick s)) = c)
       \<and> (\<not> isClientPMTUVerfied (fwConn s) \<and> 0 \<le> c + EthernetOverhead \<longrightarrow>
            loopIter env SelTick s
              = s\<lparr>fwConn := (fwConn s)\<lparr>clientPMTU := c\<rparr>, fwClientPMTU := c,
                   fwEnc := verifyEnc env vf 10 (fwEnc s),
                   fwSent := fwSent s @ map (\<lambda>d. (fwMaxPayload s, d))
                               (verifyDatagrams env vf 10 (fwEnc s)),
                   fwPmtuVerifyTick := True\<rparr>
          \<and> length (verifyDatagrams env vf 10 (fwEnc s)) = 10
          \<and> int (length (frame vf)) = c + EthernetOverhead)
       \<and> (isClientPMTUVerfied (fwConn s) \<longrightarrow>
            loopIter env SelTick s = s\<lparr>fwPmtuVerifyTick := False\<rparr>)"
proof (intro conjI impI)
  note it = loopIter_tick [OF running armed, of env, folded c_def]
  {
    assume a: "\<not> isClientPMTUVerfied (fwConn s)"
    have upd: "loopIter env SelTick s
            = updateClientPMTU env (s\<lparr>fwPmtuVerifyTick := False, fwClientPMTU := c\<rparr>)"
      using it a by (simp only: if_True simp_thms)
    show "fwClientPMTU (loopIter env SelTick s) = c"
      unfolding upd by (simp add: updateClientPMTU_pmtu)
    show "clientPMTU (fwConn (loopIter env SelTick s)) = c"
      unfolding upd by (simp add: updateClientPMTU_pmtu)
  }
  {
    assume a: "\<not> isClientPMTUVerfied (fwConn s) \<and> 0 \<le> c + EthernetOverhead"
    then have nn: "0 \<le> c + EthernetOverhead" by simp
    have "loopIter env SelTick s
            = updateClientPMTU env (s\<lparr>fwPmtuVerifyTick := False, fwClientPMTU := c\<rparr>)"
      using it a by (simp only: if_True simp_thms)
    also have "\<dots> = s\<lparr>fwConn := (fwConn s)\<lparr>clientPMTU := c\<rparr>, fwClientPMTU := c,
                   fwEnc := verifyEnc env vf 10 (fwEnc s),
                   fwSent := fwSent s @ map (\<lambda>d. (fwMaxPayload s, d))
                               (verifyDatagrams env vf 10 (fwEnc s)),
                   fwPmtuVerifyTick := True\<rparr>"
      unfolding vf_def by (rule tick_ok [OF nn])
    finally show "loopIter env SelTick s
              = s\<lparr>fwConn := (fwConn s)\<lparr>clientPMTU := c\<rparr>, fwClientPMTU := c,
                   fwEnc := verifyEnc env vf 10 (fwEnc s),
                   fwSent := fwSent s @ map (\<lambda>d. (fwMaxPayload s, d))
                               (verifyDatagrams env vf 10 (fwEnc s)),
                   fwPmtuVerifyTick := True\<rparr>" .
    show "length (verifyDatagrams env vf 10 (fwEnc s)) = 10"
      by (rule length_verifyDatagrams)
    show "int (length (frame vf)) = c + EthernetOverhead"
      unfolding vf_def by (rule length_verifyFrame [OF nn])
  }
  {
    assume "isClientPMTUVerfied (fwConn s)"
    then show "loopIter env SelTick s = s\<lparr>fwPmtuVerifyTick := False\<rparr>"
      using it by (simp only: not_not if_False simp_thms)
  }
qed

theorem tick_verification_witness:
  "fwClientPMTU (loopIter (exEnv 0 2 (\<lambda>n msg. None)) SelTick (exTicking 1200 False)) = 1190
   \<and> clientPMTU (fwConn (loopIter (exEnv 0 2 (\<lambda>n msg. None)) SelTick (exTicking 1200 False))) = 1190
   \<and> length (fwSent (loopIter (exEnv 0 2 (\<lambda>n msg. None)) SelTick (exTicking 1200 False))) = 10
   \<and> fwPmtuVerifyTick (loopIter (exEnv 0 2 (\<lambda>n msg. None)) SelTick (exTicking 1200 False))
   \<and> loopIter (exEnv 0 2 (\<lambda>n msg. None)) SelTick (exTicking 1200 True)
       = (exTicking 1200 True)\<lparr>fwPmtuVerifyTick := False\<rparr>"
proof -
  let ?env = "exEnv 0 2 (\<lambda>n msg. None)"
  have r: "fwStatus (exTicking 1200 v) = Running" "fwPmtuVerifyTick (exTicking 1200 v)" for v
    by (simp_all add: pipeline_eval)
  have f: "fwClientPMTU (exTicking 1200 v) = 1200" "fwSent (exTicking 1200 v) = []"
    "isClientPMTUVerfied (fwConn (exTicking 1200 v)) = v" for v
    by (simp_all add: pipeline_eval)
  from tick_verification [OF r, of False ?env] tick_verification [OF r, of True ?env]
  show ?thesis
    by (simp add: f EthernetOverhead_def del: verifyEnc.simps verifyDatagrams.simps)
qed

text \<open>
  The claim without the condition fails on a state the pipeline reaches by itself:
  after \<open>FrameTooBigError{68}\<close> and three firings of the timer with no acknowledgement
  \<open>clientPMTU\<close> is \<open>- 6\<close>; the fourth firing writes \<open>- 16\<close>, the verification frame would
  have \<open>- 2\<close> bytes, building it panics, and nothing is sent and the timer stays off.
\<close>

theorem tick_verification_counterexample:
  "fwStatus (exCountdown 3) = Running
   \<and> fwPmtuVerifyTick (exCountdown 3)
   \<and> \<not> isClientPMTUVerfied (fwConn (exCountdown 3))
   \<and> fwClientPMTU (exCountdown 3) = - 6
   \<and> fwStatus (loopIter (exEnv 0 2 (tooBigOnce 68)) SelTick (exCountdown 3))
       = Panicked ''makeslice: len out of range''
   \<and> clientPMTU (fwConn (loopIter (exEnv 0 2 (tooBigOnce 68)) SelTick (exCountdown 3))) = - 16
   \<and> length (fwSent (loopIter (exEnv 0 2 (tooBigOnce 68)) SelTick (exCountdown 3)))
       = length (fwSent (exCountdown 3))
   \<and> \<not> fwPmtuVerifyTick (loopIter (exEnv 0 2 (tooBigOnce 68)) SelTick (exCountdown 3))"
  by (simp add: pipeline_eval eval_nat_numeral del: verifyEnc.simps verifyDatagrams.simps)

text \<open>
  C5 (as amended). The code has no floor under \<open>clientPMTU\<close>. The countdown sets it
  to exactly its previous value minus 10, so a bound \<open>MinPMTU \<le> clientPMTU\<close> holds
  after a firing of the timer if and only if \<open>MinPMTU + 10 \<le> clientPMTU\<close> held before
  it; the recomputation after \<open>FrameTooBigError{pmtu}\<close> sets it to
  \<open>pmtu - UDPOverhead - PacketOverhead - FrameOverhead - EthernetOverhead\<close>, so the
  bound holds after it if and only if \<open>pmtu\<close> is at least \<open>MinPMTU\<close> plus those
  overheads.
\<close>

theorem pmtu_floor:
  fixes s :: "'e Forwarder" and env :: "'e Env" and pmtu :: int
  defines "c \<equiv> pmtu - UDPOverhead env - PacketOverhead env (snd (Bytes env (fwEnc s)))
                  - FrameOverhead env (snd (Bytes env (fwEnc s))) - EthernetOverhead"
  shows "(fwStatus s = Running \<and> fwPmtuVerifyTick s \<and> \<not> isClientPMTUVerfied (fwConn s) \<longrightarrow>
            fwClientPMTU (loopIter env SelTick s) = fwClientPMTU s - 10
          \<and> clientPMTU (fwConn (loopIter env SelTick s)) = fwClientPMTU s - 10
          \<and> (pmtuAtLeast minPMTU (loopIter env SelTick s)
               \<longleftrightarrow> minPMTU + 10 \<le> fwClientPMTU s))
       \<and> (udpSend env (length (fwSent s)) (fst (Bytes env (fwEnc s)))
             = Some (FrameTooBigError pmtu f) \<longrightarrow>
            fwClientPMTU (flush env s) = c
          \<and> clientPMTU (fwConn (flush env s)) = c
          \<and> (pmtuAtLeast minPMTU (flush env s) \<longleftrightarrow> minPMTU \<le> c))"
proof (intro conjI impI)
  {
    assume a: "fwStatus s = Running \<and> fwPmtuVerifyTick s \<and> \<not> isClientPMTUVerfied (fwConn s)"
    then have it: "loopIter env SelTick s
        = updateClientPMTU env (s\<lparr>fwPmtuVerifyTick := False, fwClientPMTU := fwClientPMTU s - 10\<rparr>)"
      using loopIter_tick [of s env] by simp
    show t1: "fwClientPMTU (loopIter env SelTick s) = fwClientPMTU s - 10"
      unfolding it by (simp add: updateClientPMTU_pmtu)
    show t2: "clientPMTU (fwConn (loopIter env SelTick s)) = fwClientPMTU s - 10"
      unfolding it by (simp add: updateClientPMTU_pmtu)
    show "pmtuAtLeast minPMTU (loopIter env SelTick s) \<longleftrightarrow> minPMTU + 10 \<le> fwClientPMTU s"
      unfolding pmtuAtLeast_def t1 t2 by auto
  }
  {
    assume a: "udpSend env (length (fwSent s)) (fst (Bytes env (fwEnc s)))
                 = Some (FrameTooBigError pmtu f)"
    have b: "Bytes env (fwEnc s) = (fst (Bytes env (fwEnc s)), snd (Bytes env (fwEnc s)))"
      by simp
    note fl = flush_unfold_too_big [OF b a, folded c_def]
    show f1: "fwClientPMTU (flush env s) = c"
      unfolding fl by (simp add: updateClientPMTU_pmtu)
    show f2: "clientPMTU (fwConn (flush env s)) = c"
      unfolding fl by (simp add: updateClientPMTU_pmtu)
    show "pmtuAtLeast minPMTU (flush env s) \<longleftrightarrow> minPMTU \<le> c"
      unfolding pmtuAtLeast_def f1 f2 by auto
  }
qed

theorem pmtu_floor_witness:
  "fwClientPMTU (loopIter (exEnv 0 2 (\<lambda>n msg. None)) SelTick (exTicking 1200 False)) = 1190
   \<and> pmtuAtLeast 1195 (exTicking 1200 False)
   \<and> \<not> pmtuAtLeast 1195 (loopIter (exEnv 0 2 (\<lambda>n msg. None)) SelTick (exTicking 1200 False))
   \<and> fwClientPMTU (flush (exEnv 0 2 (tooBigOnce 1400)) (exBatch 0 2 1400)) = 1356
   \<and> \<not> pmtuAtLeast 1360 (flush (exEnv 0 2 (tooBigOnce 1400)) (exBatch 0 2 1400))"
proof -
  let ?env = "exEnv 0 2 (\<lambda>n msg. None)" and ?envF = "exEnv 0 2 (tooBigOnce 1400)"
  have r: "fwStatus (exTicking 1200 False) = Running" "fwPmtuVerifyTick (exTicking 1200 False)"
    "\<not> isClientPMTUVerfied (fwConn (exTicking 1200 False))"
    "fwClientPMTU (exTicking 1200 False) = 1200" "pmtuAtLeast 1195 (exTicking 1200 False)"
    by (simp_all add: pipeline_eval)
  have u: "udpSend ?envF (length (fwSent (exBatch 0 2 1400)))
             (fst (Bytes ?envF (fwEnc (exBatch 0 2 1400)))) = Some (FrameTooBigError 1400 None)"
    by (simp add: pipeline_eval)
  have v: "UDPOverhead ?envF = 28" "PacketOverhead ?envF e = 0" "FrameOverhead ?envF e = 2" for e
    by (simp_all add: pipeline_eval)
  from pmtu_floor [where s = "exTicking 1200 False" and env = ?env and minPMTU = 1195]
    pmtu_floor [where s = "exBatch 0 2 1400" and env = ?envF and pmtu = 1400 and f = None
      and minPMTU = 1360]
  show ?thesis
    by (simp add: r u v EthernetOverhead_def)
qed

text \<open>
  The bound of the claim fails for every positive \<open>MinPMTU\<close>: in the run above
  \<open>clientPMTU\<close> is 24 once the pipeline has set it and \<open>- 6\<close> three firings later,
  the pipeline still running.
\<close>

theorem pmtu_floor_counterexample:
  "pmtuAtLeast 1 (exCountdown 0)
   \<and> clientPMTU (fwConn (exCountdown 0)) = 24
   \<and> fwStatus (exCountdown 3) = Running
   \<and> \<not> pmtuAtLeast 1 (exCountdown 3)
   \<and> clientPMTU (fwConn (exCountdown 3)) = - 6"
  by (simp add: pipeline_eval eval_nat_numeral del: verifyEnc.simps verifyDatagrams.simps)

text \<open>
  C8. Every datagram the pipeline hands to its sender, from a flush of the coalescing
  loop or from a verification send, in any run of the loop from its start and under
  any behaviour of the sender and of the rest of the program, is at most
  \<open>maxPayload + PacketOverhead\<close> long, for the \<open>maxPayload\<close> current when it is
  handed over, given that the encryptor's accounting is accurate.
\<close>

theorem datagrams_bounded:
  assumes "accurate env"
  shows "\<forall>(maxPayload, datagram)
            \<in> set (fwSent (run env evs (forwarderLoopInit env conn forwardCh stop enc0 pmtu))).
           int (length datagram) \<le> maxPayload + PacketOverhead env enc0"
proof -
  have "fwInv env (PacketOverhead env enc0) (FrameOverhead env enc0)
          (run env evs (forwarderLoopInit env conn forwardCh stop enc0 pmtu))"
    by (rule run_inv [OF assms init_inv])
  then show ?thesis by (simp add: fwInv_def sentBounded_def)
qed

theorem datagrams_bounded_witness:
  "length (fwSent (run (exEnv 0 2 (tooBigOnce 1400))
             [Enqueue (exFrame 100), Enqueue (exFrame 200), Select SelFrame, Select SelTick]
             (forwarderLoopInit (exEnv 0 2 (tooBigOnce 1400)) exConn 1 3 [] 1500))) = 21
   \<and> list_all (\<lambda>(maxPayload, datagram). int (length datagram) \<le> maxPayload + 0)
        (fwSent (run (exEnv 0 2 (tooBigOnce 1400))
             [Enqueue (exFrame 100), Enqueue (exFrame 200), Select SelFrame, Select SelTick]
             (forwarderLoopInit (exEnv 0 2 (tooBigOnce 1400)) exConn 1 3 [] 1500)))"
proof -
  let ?env = "exEnv 0 2 (tooBigOnce 1400)"
  have t: "PacketOverhead ?env [] = 0"
    by (simp add: exEnv_def)
  have l: "length (fwSent (run ?env
             [Enqueue (exFrame 100), Enqueue (exFrame 200), Select SelFrame, Select SelTick]
             (forwarderLoopInit ?env exConn 1 3 [] 1500))) = 21"
    by (simp add: pipeline_eval del: verifyEnc.simps verifyDatagrams.simps)
  from datagrams_bounded [OF accurate_exEnv [of 0 2 "tooBigOnce 1400"],
      where evs = "[Enqueue (exFrame 100), Enqueue (exFrame 200), Select SelFrame, Select SelTick]"
        and conn = exConn and forwardCh = 1 and stop = 3 and ?enc0.0 = "[]" and pmtu = 1500] l
  show ?thesis by (simp only: t list_all_iff simp_thms)
qed

end
